theory Spec2Isabelle
  imports Main "HOL-Library.Sublist"
begin

section \<open>Python values used by the news extractor\<close>

text \<open>
  Strings are \<^typ>\<open>string\<close> (lists of 8-bit characters): the model covers ASCII text.
  Every exception the code can raise is a value of \<open>py_error\<close>; a computation that
  may raise returns \<open>py_error + 'a\<close>, with \<open>Inl\<close> for the exception.
  \<open>RequestError\<close> is the exception of \<^verbatim>\<open>app.core.common.custom_exceptions\<close>,
  carrying its message.
\<close>

datatype py_error =
    IndexError
  | KeyError
  | AttributeError
  | TypeError
  | ValueError
  | ParserError
  | JSONDecodeError
  | ConnectionError
  | RequestError string

text \<open>A naive \<^verbatim>\<open>datetime\<close> is a number of seconds, a \<^verbatim>\<open>date\<close> a number of days;
  \<^verbatim>\<open>datetime.date()\<close> drops the time of day.\<close>

type_synonym py_datetime = int
type_synonym py_date = int

definition datetime_date :: "py_datetime \<Rightarrow> py_date" where
  "datetime_date dt = dt div 86400"

text \<open>\<^verbatim>\<open>xs[i]\<close> for a non-negative index: IndexError out of range.\<close>

definition py_getitem :: "'a list \<Rightarrow> nat \<Rightarrow> py_error + 'a" where
  "py_getitem xs i = (if i < length xs then Inr (xs ! i) else Inl IndexError)"

subsection \<open>String operations\<close>

text \<open>
  \<^verbatim>\<open>s.partition(sep)\<close> restricted to what \<^verbatim>\<open>split\<close> needs: the text before the
  first occurrence of \<open>sep\<close> and, when there is an occurrence, the text after it.
\<close>

fun py_partition :: "string \<Rightarrow> string \<Rightarrow> string \<times> string option" where
  "py_partition sep [] = ([], None)"
| "py_partition sep (c # cs) =
     (if sep \<noteq> [] \<and> prefix sep (c # cs) then ([], Some (drop (length sep) (c # cs)))
      else (case py_partition sep cs of (b, r) \<Rightarrow> (c # b, r)))"

lemma py_partition_shorter:
  "py_partition sep s = (b, Some r) \<Longrightarrow> length r < length s"
proof (induction s arbitrary: b r)
  case Nil
  then show ?case by simp
next
  case (Cons c cs)
  show ?case
  proof (cases "sep \<noteq> [] \<and> prefix sep (c # cs)")
    case True
    with Cons.prems have "r = drop (length sep) (c # cs)" by simp
    moreover from True have "0 < length sep" by simp
    ultimately show ?thesis by simp
  next
    case False
    with Cons.prems obtain b' where "py_partition sep cs = (b', Some r)"
      by (auto split: prod.splits)
    from Cons.IH [OF this] show ?thesis by simp
  qed
qed

text \<open>
  \<^verbatim>\<open>s.split(sep)\<close> for a non-empty separator. (Python raises ValueError for an empty
  separator; the code only splits at the literals \<^verbatim>\<open>"?ref"\<close>, \<^verbatim>\<open>"/"\<close> and the
  paywall sentence.)
\<close>

function py_split :: "string \<Rightarrow> string \<Rightarrow> string list" where
  "py_split sep s =
     (case py_partition sep s of
        (b, None) \<Rightarrow> [b]
      | (b, Some r) \<Rightarrow> b # py_split sep r)"
  by pat_completeness auto
termination
  by (relation "measure (\<lambda>(sep, s). length s)") (auto dest: py_partition_shorter [OF sym])

declare py_split.simps [simp del]

text \<open>\<^verbatim>\<open>sep.join(xs)\<close> and \<^verbatim>\<open>s.replace(old, new)\<close> (non-empty \<open>old\<close>).\<close>

fun py_join :: "string \<Rightarrow> string list \<Rightarrow> string" where
  "py_join sep [] = []"
| "py_join sep [x] = x"
| "py_join sep (x # y # ys) = x @ sep @ py_join sep (y # ys)"

definition py_replace :: "string \<Rightarrow> string \<Rightarrow> string \<Rightarrow> string" where
  "py_replace old new s = py_join new (py_split old s)"

text \<open>\<^verbatim>\<open>x in s\<close> on strings is \<^const>\<open>sublist\<close>.\<close>

text \<open>
  \<^verbatim>\<open>str.capitalize()\<close> and \<^verbatim>\<open>str.lower()\<close> on ASCII text (a letter outside
  ASCII is left as it is). The scraped source capitalizes a segment of a URL path. The
  API source lowers what the user typed, which is any text: there \<^verbatim>\<open>str.lower()\<close>
  is taken from the world (\<open>str_lower\<close> below), and \<open>py_lower\<close> is the one
  of the example inputs.
\<close>

definition ascii_lower :: "char \<Rightarrow> char" where
  "ascii_lower c =
     (let n = (of_char c :: nat) in if 65 \<le> n \<and> n \<le> 90 then char_of (n + 32) else c)"

definition ascii_upper :: "char \<Rightarrow> char" where
  "ascii_upper c =
     (let n = (of_char c :: nat) in if 97 \<le> n \<and> n \<le> 122 then char_of (n - 32) else c)"

definition py_lower :: "string \<Rightarrow> string" where
  "py_lower s = map ascii_lower s"

definition py_capitalize :: "string \<Rightarrow> string" where
  "py_capitalize s = (case s of [] \<Rightarrow> [] | c # cs \<Rightarrow> ascii_upper c # map ascii_lower cs)"

text \<open>\<^verbatim>\<open>str(n)\<close> for a non-negative integer, and the \<^verbatim>\<open>str\<close> of a list of them
  (as an f-string prints it).\<close>

function py_str_nat :: "nat \<Rightarrow> string" where
  "py_str_nat n =
     (if n < 10 then [char_of (48 + n)]
      else py_str_nat (n div 10) @ [char_of (48 + n mod 10)])"
  by pat_completeness auto
termination
  by (relation "measure id") auto

declare py_str_nat.simps [simp del]

definition py_str_nat_list :: "nat list \<Rightarrow> string" where
  "py_str_nat_list ns = ''['' @ py_join '', '' (map py_str_nat ns) @ '']''"

section \<open>Request validation (publico/decorators.py)\<close>

text \<open>
  \<^verbatim>\<open>validate_urls\<close> wraps a view function \<open>f\<close>. \<open>validate_url\<close> is
  \<^verbatim>\<open>PublicoNews.validate_url\<close> (not part of the sources at hand) and \<open>data\<close> is the
  list \<^verbatim>\<open>to_list(request.get_json().get("url"))\<close>. The wrapped function is called
  only on the last line.
\<close>

definition invalid_urls_index :: "(string \<Rightarrow> bool) \<Rightarrow> string list \<Rightarrow> nat list" where
  "invalid_urls_index validate_url data =
     (let valid_url = map validate_url data
      in map fst (filter (\<lambda>(i, v). \<not> v) (enumerate 0 valid_url)))"

definition validate_urls ::
  "(string \<Rightarrow> bool) \<Rightarrow> ('a \<Rightarrow> 'r) \<Rightarrow> string list \<Rightarrow> 'a \<Rightarrow> py_error + 'r" where
  "validate_urls validate_url f data args =
     (if length data > 50
      then Inl (RequestError ''Too many URLS to search. Please provide up to 50 URLS!'')
      else if length (invalid_urls_index validate_url data) \<noteq> 0
      then Inl (RequestError (''Invalid URLs provided at position: ''
                  @ py_str_nat_list (invalid_urls_index validate_url data)))
      else Inr (f args))"




section \<open>The outside world\<close>

text \<open>
  What the searches get from outside the files at hand is a parameter: the network, the
  libraries \<^verbatim>\<open>lxml\<close> and \<^verbatim>\<open>json\<close>, and the helpers and news classes of the
  repository that the searches call. Any of them may raise.

  An \<^verbatim>\<open><article>\<close> element of a listing page is given by the results of the three
  XPath queries the code runs on it, a detail page likewise.
\<close>

record response =
  status_code :: int
  response_text :: string

record article =
  h2_links :: "string option list"
    \<comment> \<open>\<^verbatim>\<open>.//h2/a\<close>: for each element its \<^verbatim>\<open>data-name\<close> attribute, if it has one\<close>
  date_spans :: "string option list"
    \<comment> \<open>\<^verbatim>\<open>.//span[@class="dateTime"]\<close>: the \<^verbatim>\<open>.text\<close> of each element\<close>
  lead_spans :: "string option list"
    \<comment> \<open>\<^verbatim>\<open>.//span[@class="lead"]\<close>: the \<^verbatim>\<open>.text\<close> of each element\<close>

record detail_page =
  author_spans :: "string option list"
    \<comment> \<open>\<^verbatim>\<open>//span[@class='autor']//span\<close>: the \<^verbatim>\<open>.text\<close> of each element\<close>
  h1_titles :: "string option list"
    \<comment> \<open>\<^verbatim>\<open>//div[@class='centro']//section//h1\<close>: the \<^verbatim>\<open>.text\<close> of each element\<close>
  text_nodes :: "string list"
    \<comment> \<open>the text nodes of the paywall container\<close>

record world =
  requests_get :: "string \<Rightarrow> py_error + string"
    \<comment> \<open>\<^verbatim>\<open>requests.get(url).text\<close>\<close>
  datetime_from_string :: "string option \<Rightarrow> py_error + py_datetime"

record cm_world = world +
  listing_articles :: "string \<Rightarrow> py_error + article list"
    \<comment> \<open>\<^verbatim>\<open>html.fromstring(s).xpath("//article")\<close>\<close>
  send_post_then_get_html_string :: "string \<Rightarrow> py_error + response"
    \<comment> \<open>the login URL and payload are constants of the class\<close>
  detail_tree :: "string \<Rightarrow> py_error + detail_page"
    \<comment> \<open>\<^verbatim>\<open>html.fromstring(response.text)\<close> and the queries on it\<close>
  normalize_str :: "string option \<Rightarrow> py_error + string"
  html_unescape :: "string \<Rightarrow> string"

section \<open>The scraped source (cm/models/cm_search.py)\<close>

text \<open>
  \<^verbatim>\<open>CMNews\<close> is built from eight positional arguments. The sixth is the one-element
  list \<^verbatim>\<open>[authors]\<close>, where \<^verbatim>\<open>authors\<close> is either the text of the first author span
  or the (empty) list of spans itself.
\<close>

datatype cm_author = Author_Text "string option" | Author_Spans "string option list"

record cm_news =
  cm_title :: string
  cm_description :: "string option"
  cm_url :: string
  cm_rubric :: string
  cm_date :: py_datetime
  cm_authors :: "cm_author list"
  cm_is_opinion :: bool
  cm_text :: string

text \<open>The object, and the object together with the local variables of \<^verbatim>\<open>search\<close>.\<close>

record cm_topic_search =
  topic :: string
  cm_start_date :: py_datetime
  cm_end_date :: py_datetime
  cm_found_news :: "cm_news list"

record cm_frame = cm_topic_search +
  index :: nat
  full_stop :: bool

definition cm_topic_search_init ::
  "'w world_scheme \<Rightarrow> string \<Rightarrow> string \<Rightarrow> string \<Rightarrow> py_error + cm_topic_search" where
  "cm_topic_search_init w topic_arg start_arg end_arg =
     (case datetime_from_string w (Some start_arg) of
        Inl e \<Rightarrow> Inl e
      | Inr s \<Rightarrow>
     (case datetime_from_string w (Some end_arg) of
        Inl e \<Rightarrow> Inl e
      | Inr e \<Rightarrow>
        Inr \<lparr>topic = topic_arg, cm_start_date = s, cm_end_date = e, cm_found_news = []\<rparr>))"

definition cm_listing_url :: "string \<Rightarrow> nat \<Rightarrow> string" where
  "cm_listing_url topic_arg i =
     ''https://www.cmjornal.pt/mais-sobre/loadmore?friendlyUrl=mais-sobre&urlRefParameters=?ref=Mais%20Sobre_BlocoMaisSobre&contentStartIndex=''
       @ py_str_nat i @ ''&searchKeywords='' @ py_replace '' '' ''-'' topic_arg"

text \<open>Lines 94 to 96: the URL of an item, made absolute and cut at \<^verbatim>\<open>?ref\<close>.\<close>

definition cm_normalize_url :: "string \<Rightarrow> py_error + string" where
  "cm_normalize_url url =
     (case py_getitem url 0 of
        Inl e \<Rightarrow> Inl e
      | Inr c \<Rightarrow>
          py_getitem
            (py_split ''?ref'' (if c = CHR ''/'' then ''https://www.cmjornal.pt'' @ url else url))
            0)"

definition cm_denylisted :: "string \<Rightarrow> bool" where
  "cm_denylisted url =
     list_ex (\<lambda>x. sublist x url) [''interativa'', ''multimedia'', ''perguntas'']"

text \<open>
  Lines 92 to 108, what the loop body reads from the listing: \<open>Inl\<close> when a step
  raises, \<open>Inr None\<close> for \<^verbatim>\<open>continue\<close>, and otherwise the URL, the date and the
  description with which the body goes on to fetch the detail page.
\<close>

definition cm_listing_item ::
  "'w world_scheme \<Rightarrow> 'a cm_topic_search_scheme \<Rightarrow> article \<Rightarrow>
   py_error + (string \<times> py_datetime \<times> string option) option" where
  "cm_listing_item w self a =
     (case py_getitem (h2_links a) 0 of
        Inl e \<Rightarrow> Inl e
      | Inr None \<Rightarrow> Inl KeyError
      | Inr (Some data_name) \<Rightarrow>
     (case cm_normalize_url data_name of
        Inl e \<Rightarrow> Inl e
      | Inr url \<Rightarrow>
        if cm_denylisted url then Inr None
        else
     (case py_getitem (date_spans a) 0 of
        Inl e \<Rightarrow> Inl e
      | Inr None \<Rightarrow> Inl AttributeError
      | Inr (Some date_text) \<Rightarrow>
     (case datetime_from_string w (Some (py_replace ''|'' [] date_text)) of
        Inl e \<Rightarrow> Inl e
      | Inr news_date \<Rightarrow>
        if \<not> (cm_start_date self < news_date \<and> news_date < cm_end_date self) then Inr None
        else
     (case py_getitem (lead_spans a) 0 of
        Inl e \<Rightarrow> Inl e
      | Inr description \<Rightarrow> Inr (Some (url, news_date, description)))))))"

text \<open>Lines 118 to 146: the record built from the detail page.\<close>

definition cm_build_news ::
  "'w cm_world_scheme \<Rightarrow> string \<Rightarrow> py_datetime \<Rightarrow> string option \<Rightarrow> string \<Rightarrow> py_error + cm_news" where
  "cm_build_news w url news_date description html_text =
     (case detail_tree w html_text of
        Inl e \<Rightarrow> Inl e
      | Inr tree \<Rightarrow>
     (case py_getitem (py_split ''/'' url) 3 of
        Inl e \<Rightarrow> Inl e
      | Inr part \<Rightarrow>
     (case py_getitem (h1_titles tree) 0 of
        Inl e \<Rightarrow> Inl e
      | Inr h1_text \<Rightarrow>
     (case normalize_str w h1_text of
        Inl e \<Rightarrow> Inl e
      | Inr title \<Rightarrow>
     (case normalize_str w (Some (py_join '' '' (text_nodes tree))) of
        Inl e \<Rightarrow> Inl e
      | Inr normalized \<Rightarrow>
     (case py_getitem
             (py_split ''Para aceder a todos os Exclusivos CM'' (html_unescape w normalized)) 0 of
        Inl e \<Rightarrow> Inl e
      | Inr body \<Rightarrow>
        (let is_opinion = sublist ''opiniao'' url;
             rubric = py_capitalize part;
             authors = author_spans tree;
             authors = (if length authors \<noteq> 0 then Author_Text (authors ! 0)
                        else Author_Spans authors)
         in Inr \<lparr>cm_title = title, cm_description = description, cm_url = url,
                 cm_rubric = rubric, cm_date = news_date, cm_authors = [authors],
                 cm_is_opinion = is_opinion, cm_text = body\<rparr>)))))))"

text \<open>One pass of the body of the \<^verbatim>\<open>for\<close> loop, and the loop over a page.\<close>

definition cm_article ::
  "'w cm_world_scheme \<Rightarrow> 'a cm_topic_search_scheme \<Rightarrow> article \<Rightarrow>
   py_error + 'a cm_topic_search_scheme" where
  "cm_article w self a =
     (case cm_listing_item w self a of
        Inl e \<Rightarrow> Inl e
      | Inr None \<Rightarrow> Inr self
      | Inr (Some (url, news_date, description)) \<Rightarrow>
     (case send_post_then_get_html_string w url of
        Inl e \<Rightarrow> Inl e
      | Inr response \<Rightarrow>
        if status_code response \<noteq> 200 then Inr self
        else
     (case cm_build_news w url news_date description (response_text response) of
        Inl e \<Rightarrow> Inl e
      | Inr news \<Rightarrow> Inr (self\<lparr>cm_found_news := cm_found_news self @ [news]\<rparr>))))"

fun cm_articles ::
  "'w cm_world_scheme \<Rightarrow> 'a cm_topic_search_scheme \<Rightarrow> article list \<Rightarrow>
   py_error + 'a cm_topic_search_scheme" where
  "cm_articles w self [] = Inr self"
| "cm_articles w self (a # rest) =
     (case cm_article w self a of
        Inl e \<Rightarrow> Inl e
      | Inr self' \<Rightarrow> cm_articles w self' rest)"

text \<open>
  The \<^verbatim>\<open>while True\<close> loop may run forever, so it takes fuel: one unit for each page
  fetched. A run returns (with the object and the locals as they are then), raises, or
  is still running when the fuel is spent.
\<close>

datatype 'a outcome = Returned 'a | Raised py_error | Out_Of_Fuel

definition empty_page :: "string \<Rightarrow> bool" where
  "empty_page html_string \<longleftrightarrow> html_string \<in> set [[CHR 0x0D, CHR 0x0A], []]"

fun cm_search_loop :: "'w cm_world_scheme \<Rightarrow> nat \<Rightarrow> cm_frame \<Rightarrow> cm_frame outcome" where
  "cm_search_loop w 0 fr = Out_Of_Fuel"
| "cm_search_loop w (Suc n) fr =
     (case requests_get w (cm_listing_url (topic fr) (index fr)) of
        Inl e \<Rightarrow> Raised e
      | Inr html_string \<Rightarrow>
        if empty_page html_string then Returned fr
        else
     (case listing_articles w html_string of
        Inl e \<Rightarrow> Raised e
      | Inr articles \<Rightarrow>
     (case cm_articles w fr articles of
        Inl e \<Rightarrow> Raised e
      | Inr fr' \<Rightarrow>
        if full_stop fr' then Returned fr'
        else cm_search_loop w n (fr'\<lparr>index := index fr' + 6\<rparr>))))"

definition cm_search :: "'w cm_world_scheme \<Rightarrow> nat \<Rightarrow> cm_topic_search \<Rightarrow> cm_frame outcome" where
  "cm_search w fuel self =
     cm_search_loop w fuel
       \<lparr>topic = topic self, cm_start_date = cm_start_date self, cm_end_date = cm_end_date self,
        cm_found_news = cm_found_news self, index = 0, full_stop = False\<rparr>"


text \<open>
  Following the spec (4.3, 9): the scraped source has no early stop; its loop ends on an
  empty page only. This is the loop above without the test of \<^verbatim>\<open>full_stop\<close>, to
  compare the code with.
\<close>

fun cm_paging_loop :: "'w cm_world_scheme \<Rightarrow> nat \<Rightarrow> cm_frame \<Rightarrow> cm_frame outcome" where
  "cm_paging_loop w 0 fr = Out_Of_Fuel"
| "cm_paging_loop w (Suc n) fr =
     (case requests_get w (cm_listing_url (topic fr) (index fr)) of
        Inl e \<Rightarrow> Raised e
      | Inr html_string \<Rightarrow>
        if empty_page html_string then Returned fr
        else
     (case listing_articles w html_string of
        Inl e \<Rightarrow> Raised e
      | Inr articles \<Rightarrow>
     (case cm_articles w fr articles of
        Inl e \<Rightarrow> Raised e
      | Inr fr' \<Rightarrow> cm_paging_loop w n (fr'\<lparr>index := index fr' + 6\<rparr>))))"

definition cm_search_without_stop ::
  "'w cm_world_scheme \<Rightarrow> nat \<Rightarrow> cm_topic_search \<Rightarrow> cm_frame outcome" where
  "cm_search_without_stop w fuel self =
     cm_paging_loop w fuel
       \<lparr>topic = topic self, cm_start_date = cm_start_date self, cm_end_date = cm_end_date self,
        cm_found_news = cm_found_news self, index = 0, full_stop = False\<rparr>"

text \<open>
  A record \<open>n\<close> is built from the article \<open>a\<close>: the listing gives a URL, a date in
  range and a description, the detail page is fetched with status 200, and the record is
  made from it.
\<close>

definition cm_built ::
  "'w cm_world_scheme \<Rightarrow> 'a cm_topic_search_scheme \<Rightarrow> article \<Rightarrow> cm_news \<Rightarrow> bool" where
  "cm_built w self a n \<longleftrightarrow>
     (\<exists>u d desc resp. cm_listing_item w self a = Inr (Some (u, d, desc)) \<and>
        send_post_then_get_html_string w u = Inr resp \<and> status_code resp = 200 \<and>
        cm_build_news w u d desc (response_text resp) = Inr n)"


text \<open>The world in which an article is on no listing page.\<close>

definition without_article :: "'w cm_world_scheme \<Rightarrow> article \<Rightarrow> 'w cm_world_scheme" where
  "without_article w a =
     w\<lparr>listing_articles := (\<lambda>h.
          case listing_articles w h of
            Inl e \<Rightarrow> Inl e
          | Inr arts \<Rightarrow> Inr (filter (\<lambda>x. x \<noteq> a) arts))\<rparr>"

section \<open>The API source (publico/models/publico_search.py)\<close>

text \<open>
  Modelled from the spec: the class \<^verbatim>\<open>PublicoNews\<close> (publico_news.py is not among the
  sources at hand). Its attributes are those of the spec's Article Record.
\<close>

record publico_news =
  news_title :: string
  news_description :: "string option"
  news_url :: string
  news_rubric :: string
  news_date :: py_date
  news_authors :: "string list"
  news_is_opinion :: bool
  news_text :: "string option"

text \<open>
  Modelled from the spec: the equality of \<^verbatim>\<open>PublicoNews\<close>, which
  \<^verbatim>\<open>news_object not in self.found_news\<close> uses (\<open>py_in\<close> below). The spec has "URL is
  the identity key for deduplication: two records with equal normalized URL are the same
  article".
\<close>

definition news_eq :: "publico_news \<Rightarrow> publico_news \<Rightarrow> bool" where
  "news_eq a b \<longleftrightarrow> news_url a = news_url b"

definition py_in :: "publico_news \<Rightarrow> publico_news list \<Rightarrow> bool" where
  "py_in x xs = list_ex (\<lambda>e. news_eq e x) xs"

text \<open>
  An element of the JSON array of a page is an object with string values;
  \<^verbatim>\<open>item.get(k)\<close> is \<^const>\<open>map_of\<close>. \<open>deserialize_news\<close> answers \<open>None\<close> when
  what \<^verbatim>\<open>PublicoNews.deserialize_news\<close> returns is not a \<^verbatim>\<open>PublicoNews\<close>.
\<close>

type_synonym item = "(string \<times> string) list"

record publico_world = world +
  json_loads :: "string \<Rightarrow> py_error + item list"
  parse_date :: "string option \<Rightarrow> py_error + py_date"
  deserialize_news :: "item \<Rightarrow> py_error + publico_news option"
  validate_url :: "string \<Rightarrow> bool"
  build_from_url :: "string \<Rightarrow> py_error + publico_news"
  strftime_dmy :: "py_date \<Rightarrow> string"
    \<comment> \<open>\<^verbatim>\<open>d.strftime("%d-%m-%Y")\<close>\<close>
  str_lower :: "string \<Rightarrow> string"
    \<comment> \<open>\<^verbatim>\<open>s.lower()\<close>, which follows the Unicode tables\<close>

text \<open>
  The classes: \<^verbatim>\<open>PublicoSearch\<close>, \<^verbatim>\<open>PublicoAPISearch\<close> and the three concrete
  searches. The frame of a run of the topic search is the object together with the
  local variable \<^verbatim>\<open>stop_entire_search\<close> and the trace of what the run did so far, in
  order: the URLs it requested and the items whose date it looked at.
\<close>

datatype event = Fetch string | Eval item

record publico_search =
  found_news :: "publico_news list"

record publico_api_search = publico_search +
  page_number :: nat
  start_date :: py_date
  end_date :: py_date

record publico_topic_search = publico_api_search +
  search_topic :: string

record publico_topic_frame = publico_topic_search +
  stop_entire_search :: bool
  trace :: "event list"

record publico_keywords_search = publico_api_search +
  search_keywords :: string
    \<comment> \<open>the attribute \<^verbatim>\<open>keywords\<close>\<close>

definition publico_topic_search_init ::
  "'w world_scheme \<Rightarrow> string \<Rightarrow> string \<Rightarrow> string \<Rightarrow> py_error + publico_topic_search" where
  "publico_topic_search_init w topic_arg start_arg end_arg =
     (case datetime_from_string w (Some start_arg) of
        Inl e \<Rightarrow> Inl e
      | Inr s \<Rightarrow>
     (case datetime_from_string w (Some end_arg) of
        Inl e \<Rightarrow> Inl e
      | Inr e \<Rightarrow>
        Inr \<lparr>found_news = [], page_number = 1, start_date = datetime_date s,
             end_date = datetime_date e, search_topic = topic_arg\<rparr>))"

definition publico_keywords_search_init ::
  "'w world_scheme \<Rightarrow> string \<Rightarrow> string \<Rightarrow> string \<Rightarrow> py_error + publico_keywords_search" where
  "publico_keywords_search_init w keywords_arg start_arg end_arg =
     (case datetime_from_string w (Some start_arg) of
        Inl e \<Rightarrow> Inl e
      | Inr s \<Rightarrow>
     (case datetime_from_string w (Some end_arg) of
        Inl e \<Rightarrow> Inl e
      | Inr e \<Rightarrow>
        Inr \<lparr>found_news = [], page_number = 1, start_date = datetime_date s,
             end_date = datetime_date e, search_keywords = keywords_arg\<rparr>))"

text \<open>\<^verbatim>\<open>PublicoURLSearch.add_news\<close>; the result of \<open>validate_url\<close> is dropped.\<close>

definition url_add_news ::
  "'w publico_world_scheme \<Rightarrow> string \<Rightarrow> 'a publico_search_scheme \<Rightarrow>
   py_error + 'a publico_search_scheme" where
  "url_add_news w u self =
     (let checked = validate_url w u
      in case build_from_url w u of
           Inl e \<Rightarrow> Inl e
         | Inr news_object \<Rightarrow>
             if \<not> py_in news_object (found_news self)
             then Inr (self\<lparr>found_news := found_news self @ [news_object]\<rparr>)
             else Inr self)"

text \<open>\<^verbatim>\<open>add_news\<close> of the topic search and of the keywords search: the two methods
  have the same text.\<close>

definition add_news ::
  "'w publico_world_scheme \<Rightarrow> item \<Rightarrow> 'a publico_search_scheme \<Rightarrow>
   py_error + 'a publico_search_scheme" where
  "add_news w data self =
     (case deserialize_news w data of
        Inl e \<Rightarrow> Inl e
      | Inr None \<Rightarrow> Inr self
      | Inr (Some news_object) \<Rightarrow>
          if \<not> py_in news_object (found_news self)
          then Inr (self\<lparr>found_news := found_news self @ [news_object]\<rparr>)
          else Inr self)"

definition topic_api_url ::
  "'w publico_world_scheme \<Rightarrow> 'a publico_topic_search_scheme \<Rightarrow> string" where
  "topic_api_url w self =
     ''https://www.publico.pt/api/list/''
       @ str_lower w (py_replace '' '' ''-'' (search_topic self))
       @ ''?page='' @ py_str_nat (page_number self)"

definition keywords_api_url ::
  "'w publico_world_scheme \<Rightarrow> 'a publico_keywords_search_scheme \<Rightarrow> string" where
  "keywords_api_url w self =
     ''https://www.publico.pt/api/list/search/?query=''
       @ str_lower w (py_replace '' '' ''%20'' (search_keywords self))
       @ ''&start='' @ strftime_dmy w (start_date self)
       @ ''&end='' @ strftime_dmy w (end_date self)
       @ ''&page='' @ py_str_nat (page_number self)"

text \<open>
  The \<^verbatim>\<open>for\<close> loop of \<^verbatim>\<open>PublicoTopicSearch.consume_api\<close> over the items of a page.
  The result is the exception raised, if any, and the frame as the loop leaves it.
\<close>

fun topic_items ::
  "'w publico_world_scheme \<Rightarrow> item list \<Rightarrow> publico_topic_frame \<Rightarrow>
   py_error option \<times> publico_topic_frame" where
  "topic_items w [] fr = (None, fr)"
| "topic_items w (it # rest) fr =
     (let fr1 = fr\<lparr>trace := trace fr @ [Eval it]\<rparr>
      in case parse_date w (map_of it ''data'') of
           Inl e \<Rightarrow> (Some e, fr1)
         | Inr d \<Rightarrow>
             if d < start_date fr1 then (None, fr1\<lparr>stop_entire_search := True\<rparr>)
             else if d > end_date fr1 then topic_items w rest fr1
             else (case add_news w it fr1 of
                     Inl e \<Rightarrow> (Some e, fr1)
                   | Inr fr2 \<Rightarrow> topic_items w rest fr2))"

text \<open>The \<^verbatim>\<open>while\<close> loop, with fuel: one unit for each request.\<close>

datatype status = Finished | Raising py_error | Fuel_Spent

fun topic_loop ::
  "'w publico_world_scheme \<Rightarrow> nat \<Rightarrow> publico_topic_frame \<Rightarrow> status \<times> publico_topic_frame" where
  "topic_loop w 0 fr = (Fuel_Spent, fr)"
| "topic_loop w (Suc n) fr =
     (let fr1 = fr\<lparr>trace := trace fr @ [Fetch (topic_api_url w fr)]\<rparr>
      in case requests_get w (topic_api_url w fr) of
           Inl e \<Rightarrow> (Raising e, fr1)
         | Inr r \<Rightarrow>
             if r = ''[]'' then (Finished, fr1)
             else (case json_loads w r of
                     Inl e \<Rightarrow> (Raising e, fr1)
                   | Inr data \<Rightarrow>
                       (case topic_items w data fr1 of
                          (Some e, fr2) \<Rightarrow> (Raising e, fr2)
                        | (None, fr2) \<Rightarrow>
                            if stop_entire_search fr2 then (Finished, fr2)
                            else topic_loop w n (fr2\<lparr>page_number := page_number fr2 + 1\<rparr>))))"

definition topic_consume_api ::
  "'w publico_world_scheme \<Rightarrow> nat \<Rightarrow> publico_topic_search \<Rightarrow> status \<times> publico_topic_frame" where
  "topic_consume_api w fuel self =
     topic_loop w fuel
       \<lparr>found_news = found_news self, page_number = page_number self,
        start_date = start_date self, end_date = end_date self,
        search_topic = search_topic self, stop_entire_search = False, trace = []\<rparr>"

text \<open>
  Words for the runs of the topic search: an item is old when its date parses to a day
  before the start date; a trace is quiet when no item it looked at is old; a record
  is accepted in a trace when it is the deserialization of an item the trace looked
  at, whose date parses to a day in the range.
\<close>

definition old_item :: "'w publico_world_scheme \<Rightarrow> py_date \<Rightarrow> item \<Rightarrow> bool" where
  "old_item w s it \<longleftrightarrow> (\<exists>d. parse_date w (map_of it ''data'') = Inr d \<and> d < s)"

definition quiet :: "'w publico_world_scheme \<Rightarrow> py_date \<Rightarrow> event list \<Rightarrow> bool" where
  "quiet w s t \<longleftrightarrow> (\<forall>it. Eval it \<in> set t \<longrightarrow> \<not> old_item w s it)"

definition topic_accepted ::
  "'w publico_world_scheme \<Rightarrow> py_date \<Rightarrow> py_date \<Rightarrow> event list \<Rightarrow> publico_news \<Rightarrow> bool" where
  "topic_accepted w s e t n \<longleftrightarrow>
     (\<exists>it d. Eval it \<in> set t \<and> deserialize_news w it = Inr (Some n) \<and>
        parse_date w (map_of it ''data'') = Inr d \<and> s \<le> d \<and> d \<le> e)"

text \<open>
  Modelled from the spec: the date that \<^verbatim>\<open>PublicoNews.deserialize_news\<close> gives a
  record (publico_news.py is not among the sources at hand). The spec (4.2) has "For
  JSON input: each array element is already a field-complete record descriptor; parsing
  is a direct field mapping with a typed-date conversion": the date of the record is
  the date of the item, the field \<^verbatim>\<open>data\<close> that \<^verbatim>\<open>consume_api\<close> reads with
  \<^verbatim>\<open>parse_date\<close>, converted to a date.
\<close>

definition date_mapping :: "'w publico_world_scheme \<Rightarrow> bool" where
  "date_mapping w \<longleftrightarrow>
     (\<forall>it n. deserialize_news w it = Inr (Some n) \<longrightarrow>
        parse_date w (map_of it ''data'') = Inr (news_date n))"

text \<open>\<^verbatim>\<open>PublicoKeywordsSearch.consume_api\<close>: every item of every page goes to
  \<^verbatim>\<open>add_news\<close>.\<close>

fun keywords_items ::
  "'w publico_world_scheme \<Rightarrow> item list \<Rightarrow> publico_keywords_search \<Rightarrow>
   py_error option \<times> publico_keywords_search" where
  "keywords_items w [] self = (None, self)"
| "keywords_items w (it # rest) self =
     (case add_news w it self of
        Inl e \<Rightarrow> (Some e, self)
      | Inr self' \<Rightarrow> keywords_items w rest self')"

fun keywords_consume_api ::
  "'w publico_world_scheme \<Rightarrow> nat \<Rightarrow> publico_keywords_search \<Rightarrow>
   status \<times> publico_keywords_search" where
  "keywords_consume_api w 0 self = (Fuel_Spent, self)"
| "keywords_consume_api w (Suc n) self =
     (case requests_get w (keywords_api_url w self) of
        Inl e \<Rightarrow> (Raising e, self)
      | Inr r \<Rightarrow>
          if r = ''[]'' then (Finished, self)
          else (case json_loads w r of
                  Inl e \<Rightarrow> (Raising e, self)
                | Inr data \<Rightarrow>
                    (case keywords_items w data self of
                       (Some e, self2) \<Rightarrow> (Raising e, self2)
                     | (None, self2) \<Rightarrow>
                         keywords_consume_api w n
                           (self2\<lparr>page_number := page_number self2 + 1\<rparr>))))"

section \<open>Example inputs\<close>

text \<open>
  A small world for the scraped source: the listing of the topic \<open>covid 19\<close> has the
  given pages and is empty after them; a detail page exists unless its URL contains
  \<open>apagada\<close>, and has two author spans unless its URL contains \<open>anonima\<close>.
\<close>

definition demo_dates :: "string option \<Rightarrow> py_error + py_datetime" where
  "demo_dates s =
     (case s of
        None \<Rightarrow> Inl TypeError
      | Some t \<Rightarrow>
          (case map_of [(''01/01/2020'', 0), (''05/01/2020'', 345600), (''20/01/2020'', 1641600),
                        (''31/01/2020'', 2592000), (''15/02/2020'', 3888000),
                        (''01/06/2020'', 13132800)] t of
             None \<Rightarrow> Inl ValueError
           | Some d \<Rightarrow> Inr d))"

definition demo_article :: "string \<Rightarrow> string \<Rightarrow> article" where
  "demo_article link day =
     \<lparr>h2_links = [Some link], date_spans = [Some (day @ ''|'')], lead_spans = [Some ''lead'']\<rparr>"

definition demo_cm_world :: "article list list \<Rightarrow> cm_world" where
  "demo_cm_world pages =
     \<lparr>requests_get = (\<lambda>u.
        case map_of (map (\<lambda>k. (cm_listing_url ''covid 19'' (6 * k), ''page '' @ py_str_nat k))
                      [0..<length pages]) u of
          None \<Rightarrow> Inr []
        | Some h \<Rightarrow> Inr h),
      datetime_from_string = demo_dates,
      listing_articles = (\<lambda>h.
        case map_of (map (\<lambda>k. (''page '' @ py_str_nat k, pages ! k)) [0..<length pages]) h of
          None \<Rightarrow> Inl ParserError
        | Some arts \<Rightarrow> Inr arts),
      send_post_then_get_html_string = (\<lambda>u.
        if sublist ''apagada'' u then Inr \<lparr>status_code = 404, response_text = []\<rparr>
        else Inr \<lparr>status_code = 200, response_text = u\<rparr>),
      detail_tree = (\<lambda>h.
        Inr \<lparr>author_spans = (if sublist ''anonima'' h then [] else [Some ''Ana'', Some ''Rui'']),
             h1_titles = [Some ''Titulo''],
             text_nodes = [''Corpo'', ''da noticia. Para aceder a todos os Exclusivos CM assine'']\<rparr>),
      normalize_str = (\<lambda>s. case s of None \<Rightarrow> Inl AttributeError | Some t \<Rightarrow> Inr t),
      html_unescape = (\<lambda>t. t)\<rparr>"

definition demo_cm_search :: cm_topic_search where
  "demo_cm_search =
     \<lparr>topic = ''covid 19'', cm_start_date = 0, cm_end_date = 2592000, cm_found_news = []\<rparr>"

definition demo_news :: "string \<Rightarrow> string \<Rightarrow> py_datetime \<Rightarrow> cm_author \<Rightarrow> bool \<Rightarrow> cm_news" where
  "demo_news link part day author opinion =
     \<lparr>cm_title = ''Titulo'', cm_description = Some ''lead'', cm_url = link, cm_rubric = part,
      cm_date = day, cm_authors = [author], cm_is_opinion = opinion,
      cm_text = ''Corpo da noticia. ''\<rparr>"


definition article_um :: article where
  "article_um = demo_article ''/sociedade/detalhe/um?ref=Mais'' ''05/01/2020''"

definition article_anonima :: article where
  "article_anonima = demo_article ''/opiniao/detalhe/anonima'' ''20/01/2020''"

definition article_apagada :: article where
  "article_apagada = demo_article ''/sociedade/detalhe/apagada'' ''05/01/2020''"


definition article_empty_link :: article where
  "article_empty_link =
     \<lparr>h2_links = [Some []], date_spans = [Some ''05/01/2020''], lead_spans = [Some ''lead'']\<rparr>"

definition news_um :: cm_news where
  "news_um = demo_news ''https://www.cmjornal.pt/sociedade/detalhe/um'' ''Sociedade'' 345600
     (Author_Text (Some ''Ana'')) False"

definition news_anonima :: cm_news where
  "news_anonima = demo_news ''https://www.cmjornal.pt/opiniao/detalhe/anonima'' ''Opiniao'' 1641600
     (Author_Spans []) True"


text \<open>
  A small world for the API source: \<open>urls\<close> gives the URL of each page number, the
  listing has the given pages and is the empty array after them. An item has a
  \<open>data\<close> and usually a \<open>url\<close>; one without a \<open>url\<close> does not deserialize.
\<close>

definition demo_days :: "string option \<Rightarrow> py_error + py_date" where
  "demo_days v =
     (case v of
        None \<Rightarrow> Inl TypeError
      | Some t \<Rightarrow>
          (case map_of [(''20/12/2019'', - 12), (''01/01/2020'', 0), (''05/01/2020'', 4),
                        (''20/01/2020'', 19), (''31/01/2020'', 30), (''15/02/2020'', 45)] t of
             None \<Rightarrow> Inl ValueError
           | Some d \<Rightarrow> Inr d))"

definition demo_item :: "string \<Rightarrow> string \<Rightarrow> item" where
  "demo_item link day = [(''url'', link), (''data'', day)]"

definition demo_publico_news :: "string \<Rightarrow> py_date \<Rightarrow> publico_news" where
  "demo_publico_news link day =
     \<lparr>news_title = ''Titulo'', news_description = None, news_url = link, news_rubric = ''Local'',
      news_date = day, news_authors = [], news_is_opinion = False, news_text = None\<rparr>"

definition demo_publico_world :: "(nat \<Rightarrow> string) \<Rightarrow> item list list \<Rightarrow> publico_world" where
  "demo_publico_world urls pages =
     \<lparr>requests_get = (\<lambda>u.
        case map_of (map (\<lambda>k. (urls (Suc k), ''[page '' @ py_str_nat (Suc k) @ '']''))
                      [0..<length pages]) u of
          None \<Rightarrow> Inr ''[]''
        | Some r \<Rightarrow> Inr r),
      datetime_from_string = demo_dates,
      json_loads = (\<lambda>r.
        case map_of (map (\<lambda>k. (''[page '' @ py_str_nat (Suc k) @ '']'', pages ! k))
                      [0..<length pages]) r of
          None \<Rightarrow> Inl JSONDecodeError
        | Some data \<Rightarrow> Inr data),
      parse_date = demo_days,
      deserialize_news = (\<lambda>it.
        case map_of it ''url'' of
          None \<Rightarrow> Inr None
        | Some link \<Rightarrow>
            (case demo_days (map_of it ''data'') of
               Inl e \<Rightarrow> Inl e
             | Inr d \<Rightarrow> Inr (Some (demo_publico_news link d)))),
      validate_url = (\<lambda>u. prefix ''https://www.publico.pt/'' u),
      build_from_url = (\<lambda>u. Inr (demo_publico_news u 4)),
      strftime_dmy = (\<lambda>d. if d = 0 then ''01-01-2020'' else ''31-01-2020''),
      str_lower = py_lower\<rparr>"

definition demo_topic_search :: publico_topic_search where
  "demo_topic_search =
     \<lparr>found_news = [], page_number = 1, start_date = 0, end_date = 30,
      search_topic = ''Covid 19''\<rparr>"

definition demo_topic_urls :: "nat \<Rightarrow> string" where
  "demo_topic_urls k =
     topic_api_url (demo_publico_world (\<lambda>k. []) []) (demo_topic_search\<lparr>page_number := k\<rparr>)"

definition demo_keywords_search :: publico_keywords_search where
  "demo_keywords_search =
     \<lparr>found_news = [], page_number = 1, start_date = 0, end_date = 30,
      search_keywords = ''Covid 19''\<rparr>"

definition demo_keywords_urls :: "nat \<Rightarrow> string" where
  "demo_keywords_urls k =
     keywords_api_url (demo_publico_world (\<lambda>k. []) []) (demo_keywords_search\<lparr>page_number := k\<rparr>)"

definition item_new :: item where
  "item_new = demo_item ''https://www.publico.pt/2020/02/15/a'' ''15/02/2020''"

definition item_in :: item where
  "item_in = demo_item ''https://www.publico.pt/2020/01/05/b'' ''05/01/2020''"

definition item_old :: item where
  "item_old = demo_item ''https://www.publico.pt/2019/12/20/c'' ''20/12/2019''"

definition item_late :: item where
  "item_late = demo_item ''https://www.publico.pt/2020/01/20/d'' ''20/01/2020''"







section \<open>The example objects are what the constructors build\<close>

lemma demo_objects_constructed:
  "cm_topic_search_init (demo_cm_world []) ''covid 19'' ''01/01/2020'' ''31/01/2020'' =
     Inr demo_cm_search"
  "publico_topic_search_init (demo_publico_world demo_topic_urls []) ''Covid 19''
     ''01/01/2020'' ''31/01/2020'' = Inr demo_topic_search"
  "publico_keywords_search_init (demo_publico_world demo_keywords_urls []) ''Covid 19''
     ''01/01/2020'' ''31/01/2020'' = Inr demo_keywords_search"
  by code_simp+

section \<open>Properties of the request validation\<close>

lemma enumerate_invalid_positions:
  "map fst (filter (\<lambda>(i, v). \<not> v) (enumerate n (map f xs))) =
     filter (\<lambda>i. \<not> f (xs ! (i - n))) [n..<n + length xs]"
proof (induction xs arbitrary: n)
  case Nil
  then show ?case by simp
next
  case (Cons x xs)
  have "[n..<n + length (x # xs)] = n # [Suc n..<Suc n + length xs]"
    by (simp add: upt_rec)
  moreover have "filter (\<lambda>i. \<not> f ((x # xs) ! (i - n))) [Suc n..<Suc n + length xs] =
      filter (\<lambda>i. \<not> f (xs ! (i - Suc n))) [Suc n..<Suc n + length xs]"
  proof (rule filter_cong [OF refl])
    fix i assume "i \<in> set [Suc n..<Suc n + length xs]"
    then have "i - n = Suc (i - Suc n)" by auto
    then show "(\<not> f ((x # xs) ! (i - n))) = (\<not> f (xs ! (i - Suc n)))" by simp
  qed
  ultimately show ?case using Cons.IH [of "Suc n"] by simp
qed

lemma invalid_urls_index_positions:
  "invalid_urls_index is_valid data =
     filter (\<lambda>i. \<not> is_valid (data ! i)) [0..<length data]"
  using enumerate_invalid_positions [of 0 is_valid data]
  by (simp add: invalid_urls_index_def)

lemma invalid_urls_index_empty:
  "invalid_urls_index is_valid data = [] \<longleftrightarrow> list_all is_valid data"
  by (auto simp: invalid_urls_index_positions filter_empty_conv list_all_length)

text \<open>
  Claim C7. A batch of more than 50 URLs is rejected with the size error, whatever the
  URLs look like (the answer mentions neither \<open>validate_url\<close> nor \<open>f\<close>: no shape check
  and no fetch). A batch of at most 50 URLs with an invalid one is rejected with
  an error that lists exactly the positions of the invalid URLs. The wrapped function
  runs, and its result is returned, exactly when the batch has at most 50 URLs and
  all of them are valid.
\<close>

theorem validate_urls_batch:
  "(50 < length data \<longrightarrow>
      validate_urls is_valid f data args =
        Inl (RequestError ''Too many URLS to search. Please provide up to 50 URLS!'')) \<and>
   (length data \<le> 50 \<and> \<not> list_all is_valid data \<longrightarrow>
      validate_urls is_valid f data args =
        Inl (RequestError (''Invalid URLs provided at position: '' @
          py_str_nat_list (filter (\<lambda>i. \<not> is_valid (data ! i)) [0..<length data])))) \<and>
   (length data \<le> 50 \<and> list_all is_valid data \<longrightarrow>
      validate_urls is_valid f data args = Inr (f args)) \<and>
   ((\<exists>r. validate_urls is_valid f data args = Inr r) \<longleftrightarrow>
      length data \<le> 50 \<and> list_all is_valid data)"
proof -
  have size: "50 < length data \<Longrightarrow> validate_urls is_valid f data args =
      Inl (RequestError ''Too many URLS to search. Please provide up to 50 URLS!'')"
    by (simp add: validate_urls_def)
  have shape: "validate_urls is_valid f data args =
      Inl (RequestError (''Invalid URLs provided at position: '' @
        py_str_nat_list (filter (\<lambda>i. \<not> is_valid (data ! i)) [0..<length data])))"
    if "length data \<le> 50" "\<not> list_all is_valid data"
  proof -
    from that(2) have "invalid_urls_index is_valid data \<noteq> []"
      by (simp add: invalid_urls_index_empty)
    with that(1) show ?thesis
      by (simp add: validate_urls_def invalid_urls_index_positions [symmetric])
  qed
  have runs: "validate_urls is_valid f data args = Inr (f args)"
    if "length data \<le> 50" "list_all is_valid data"
  proof -
    from that(2) have "invalid_urls_index is_valid data = []"
      by (simp add: invalid_urls_index_empty)
    with that(1) show ?thesis by (simp add: validate_urls_def)
  qed
  have only: "length data \<le> 50 \<and> list_all is_valid data"
    if "validate_urls is_valid f data args = Inr r" for r
  proof (rule ccontr)
    assume "\<not> (length data \<le> 50 \<and> list_all is_valid data)"
    then consider "50 < length data" | "length data \<le> 50" "\<not> list_all is_valid data"
      by fastforce
    then show False
    proof cases
      case 1
      from size [OF 1] that show False by simp
    next
      case 2
      from shape [OF 2] that show False by simp
    qed
  qed
  from size shape runs only show ?thesis by blast
qed

theorem validate_urls_batch_witness:
  "validate_urls (\<lambda>u. u = ''good'') (\<lambda>n. Suc n) (replicate 51 ''good'') 1 =
     Inl (RequestError ''Too many URLS to search. Please provide up to 50 URLS!'') \<and>
   validate_urls (\<lambda>u. u = ''good'') (\<lambda>n. Suc n) [''good'', ''bad'', ''good'', ''bad''] 1 =
     Inl (RequestError ''Invalid URLs provided at position: [1, 3]'') \<and>
   validate_urls (\<lambda>u. u = ''good'') (\<lambda>n. Suc n) [''good'', ''good''] 1 = Inr 2"
proof -
  have digits: "py_str_nat_list [Suc 0, Suc (Suc (Suc 0))] = ''[1, 3]''"
    by code_simp
  have positions: "filter (\<lambda>i. \<not> ([''good'', ''bad'', ''good'', ''bad''] ! i = ''good'')) [0..<4] = [1, 3]"
    by (simp add: upt_rec)
  show ?thesis
    using validate_urls_batch [of "replicate 51 ''good''" "\<lambda>u. u = ''good''" "\<lambda>n. Suc n" 1]
      validate_urls_batch [of "[''good'', ''bad'', ''good'', ''bad'']" "\<lambda>u. u = ''good''" "\<lambda>n. Suc n" 1]
      validate_urls_batch [of "[''good'', ''good'']" "\<lambda>u. u = ''good''" "\<lambda>n. Suc n" 1]
    by (simp add: digits positions)
qed

subsection \<open>The dates of a request\<close>








section \<open>Properties of the scraped source\<close>

subsection \<open>Splitting at the first occurrence\<close>

lemma py_split_first: "py_getitem (py_split sep s) 0 = Inr (fst (py_partition sep s))"
  by (subst py_split.simps) (simp add: py_getitem_def split: prod.splits option.splits)

lemma py_partition_absent:
  "\<not> sublist sep s \<Longrightarrow> py_partition sep s = (s, None)"
  by (induction s) (auto simp: sublist_Cons_right)

lemma ref_no_overlap:
  "prefix ''?ref'' (c # cs @ ''?ref'' @ x) \<Longrightarrow> prefix ''?ref'' (c # cs)"
  by (cases cs; cases "tl cs"; cases "tl (tl cs)") auto

lemma py_partition_ref:
  "\<not> sublist ''?ref'' r \<Longrightarrow> py_partition ''?ref'' (r @ ''?ref'' @ rest) = (r, Some rest)"
proof (induction r)
  case Nil
  then show ?case by simp
next
  case (Cons c cs)
  from Cons.prems have np: "\<not> prefix ''?ref'' (c # cs)" and ns: "\<not> sublist ''?ref'' cs"
    by (simp_all add: sublist_Cons_right)
  from np have "\<not> prefix ''?ref'' (c # cs @ ''?ref'' @ rest)"
    using ref_no_overlap by blast
  with Cons.IH [OF ns] show ?case by simp
qed

lemma py_split_ref_first:
  "\<not> sublist ''?ref'' r \<Longrightarrow> py_getitem (py_split ''?ref'' (r @ ''?ref'' @ rest)) 0 = Inr r"
  unfolding py_split_first by (simp only: py_partition_ref fst_conv not_False_eq_True)

lemma py_split_absent_first:
  "\<not> sublist sep s \<Longrightarrow> py_getitem (py_split sep s) 0 = Inr s"
  unfolding py_split_first by (simp only: py_partition_absent fst_conv not_False_eq_True)

subsection \<open>URL normalization\<close>

lemma cm_listing_item_url:
  assumes "cm_listing_item w self a = Inr (Some (v, d, desc))"
  shows "\<exists>data_name. py_getitem (h2_links a) 0 = Inr (Some data_name) \<and>
    cm_normalize_url data_name = Inr v \<and> \<not> cm_denylisted v"
  using assms unfolding cm_listing_item_def
  by (auto split: sum.splits option.splits if_splits)

text \<open>
  Claim C9, as the code has it. The rule does not hold for every extracted URL: line 94
  reads the first character of the URL, and a link whose \<^verbatim>\<open>data-name\<close> is the
  empty string raises IndexError there. Nothing is normalized, and the run ends with
  the exception before it reaches the article that follows.
\<close>

theorem cm_empty_url_raises:
  "cm_normalize_url [] = Inl IndexError \<and>
   cm_listing_item (demo_cm_world []) demo_cm_search article_empty_link = Inl IndexError \<and>
   cm_search (demo_cm_world [[article_empty_link, article_um]]) 5 demo_cm_search =
     Raised IndexError"
  by code_simp

text \<open>
  Claim C9, amended. Take an extracted URL that is not the empty string, and let
  \<open>full\<close> be the URL with the origin put in front when it begins with a slash, and
  the URL itself otherwise. The normalized URL is \<open>full\<close> when \<open>?ref\<close> does not
  occur in it, and otherwise the part of \<open>full\<close> before the first occurrence of
  \<open>?ref\<close>. The URL that the loop body tests against the denylist and goes on with
  is this normalized URL of the \<^verbatim>\<open>data-name\<close> of the first link. (The scraped search
  compares no URLs of records: it has no test for duplicates.)
\<close>

theorem cm_normalize_url_rule:
  "(u \<noteq> [] \<longrightarrow>
      (let full = (if hd u = CHR ''/'' then ''https://www.cmjornal.pt'' @ u else u)
       in (\<not> sublist ''?ref'' full \<longrightarrow> cm_normalize_url u = Inr full) \<and>
          (\<forall>r rest. full = r @ ''?ref'' @ rest \<and> \<not> sublist ''?ref'' r \<longrightarrow>
             cm_normalize_url u = Inr r))) \<and>
   (\<forall>a v d desc. cm_listing_item w self a = Inr (Some (v, d, desc)) \<longrightarrow>
      (\<exists>data_name. py_getitem (h2_links a) 0 = Inr (Some data_name) \<and>
         cm_normalize_url data_name = Inr v \<and> \<not> cm_denylisted v))"
proof (intro conjI impI allI)
  assume "u \<noteq> []"
  define full where "full = (if hd u = CHR ''/'' then ''https://www.cmjornal.pt'' @ u else u)"
  from \<open>u \<noteq> []\<close> obtain c cs where u: "u = c # cs" by (cases u) auto
  have run: "cm_normalize_url u = py_getitem (py_split ''?ref'' full) 0"
    by (simp add: u full_def cm_normalize_url_def py_getitem_def [of "c # cs"])
  have absent: "cm_normalize_url u = Inr full" if "\<not> sublist ''?ref'' full"
    unfolding run using that by (rule py_split_absent_first)
  have cut: "cm_normalize_url u = Inr r"
    if "full = r @ ''?ref'' @ rest" "\<not> sublist ''?ref'' r" for r rest
    unfolding run that(1) using that(2) by (rule py_split_ref_first)
  from absent cut
  show "let full = (if hd u = CHR ''/'' then ''https://www.cmjornal.pt'' @ u else u)
     in (\<not> sublist ''?ref'' full \<longrightarrow> cm_normalize_url u = Inr full) \<and>
        (\<forall>r rest. full = r @ ''?ref'' @ rest \<and> \<not> sublist ''?ref'' r \<longrightarrow>
           cm_normalize_url u = Inr r)"
    unfolding Let_def full_def [symmetric] by blast
next
  fix a v d desc
  assume "cm_listing_item w self a = Inr (Some (v, d, desc))"
  then show "\<exists>data_name. py_getitem (h2_links a) 0 = Inr (Some data_name) \<and>
         cm_normalize_url data_name = Inr v \<and> \<not> cm_denylisted v"
    by (rule cm_listing_item_url)
qed

theorem cm_normalize_url_rule_witness:
  "cm_normalize_url ''/x/y'' = Inr ''https://www.cmjornal.pt/x/y'' \<and>
   cm_normalize_url ''/x/y?ref=X'' = Inr ''https://www.cmjornal.pt/x/y'' \<and>
   cm_normalize_url ''https://www.cmjornal.pt/a/b?ref=Mais'' = Inr ''https://www.cmjornal.pt/a/b'' \<and>
   cm_listing_item (demo_cm_world []) demo_cm_search article_um =
     Inr (Some (''https://www.cmjornal.pt/sociedade/detalhe/um'', 345600, Some ''lead'')) \<and>
   cm_normalize_url ''/sociedade/detalhe/um?ref=Mais'' =
     Inr ''https://www.cmjornal.pt/sociedade/detalhe/um''"
proof -
  have clean1: "\<not> sublist ''?ref'' ''https://www.cmjornal.pt/x/y''"
    by code_simp
  have clean2: "\<not> sublist ''?ref'' ''https://www.cmjornal.pt/a/b''"
    by code_simp
  have listing: "cm_listing_item (demo_cm_world []) demo_cm_search article_um =
      Inr (Some (''https://www.cmjornal.pt/sociedade/detalhe/um'', 345600, Some ''lead''))"
    by code_simp
  have link: "py_getitem (h2_links article_um) 0 = Inr (Some ''/sociedade/detalhe/um?ref=Mais'')"
    by code_simp
  have "cm_normalize_url ''/x/y'' = Inr ''https://www.cmjornal.pt/x/y''"
    using cm_normalize_url_rule [of "''/x/y''" "demo_cm_world []" demo_cm_search] clean1
    by (simp add: Let_def)
  moreover have "cm_normalize_url ''/x/y?ref=X'' = Inr ''https://www.cmjornal.pt/x/y''"
    using cm_normalize_url_rule [of "''/x/y?ref=X''" "demo_cm_world []" demo_cm_search] clean1
    by (simp add: Let_def)
  moreover have "cm_normalize_url ''https://www.cmjornal.pt/a/b?ref=Mais'' =
      Inr ''https://www.cmjornal.pt/a/b''"
    using cm_normalize_url_rule [of "''https://www.cmjornal.pt/a/b?ref=Mais''" "demo_cm_world []"
        demo_cm_search] clean2
    by (simp add: Let_def)
  moreover have "cm_normalize_url ''/sociedade/detalhe/um?ref=Mais'' =
      Inr ''https://www.cmjornal.pt/sociedade/detalhe/um''"
  proof -
    from cm_normalize_url_rule [of "''/x/y''" "demo_cm_world []" demo_cm_search] listing
    obtain data_name where "py_getitem (h2_links article_um) 0 = Inr (Some data_name)"
      "cm_normalize_url data_name = Inr ''https://www.cmjornal.pt/sociedade/detalhe/um''"
      by blast
    with link show ?thesis by simp
  qed
  ultimately show ?thesis using listing by blast
qed

subsection \<open>What one pass of the loops changes\<close>

lemma cm_listing_item_dates:
  "cm_start_date s1 = cm_start_date s2 \<Longrightarrow> cm_end_date s1 = cm_end_date s2 \<Longrightarrow>
     cm_listing_item w s1 a = cm_listing_item w s2 a"
  by (simp add: cm_listing_item_def split: sum.splits option.splits)

lemma cm_built_dates:
  "cm_start_date s1 = cm_start_date s2 \<Longrightarrow> cm_end_date s1 = cm_end_date s2 \<Longrightarrow>
     cm_built w s1 a n = cm_built w s2 a n"
  unfolding cm_built_def by (simp add: cm_listing_item_dates [of s1 s2])

lemma cm_built_found [simp]:
  "cm_built w (self\<lparr>cm_found_news := x\<rparr>) a n = cm_built w self a n"
  by (rule cm_built_dates) simp_all

lemma cm_article_shape:
  assumes "cm_article w self a = Inr self'"
  shows "self' = self \<or>
    (\<exists>n. cm_built w self a n \<and> self' = self\<lparr>cm_found_news := cm_found_news self @ [n]\<rparr>)"
  using assms unfolding cm_article_def cm_built_def
  by (auto split: sum.splits option.splits prod.splits if_splits)

lemma cm_articles_shape:
  "cm_articles w self as = Inr self' \<Longrightarrow>
     \<exists>new. self' = self\<lparr>cm_found_news := cm_found_news self @ new\<rparr> \<and>
       (\<forall>n \<in> set new. \<exists>a \<in> set as. cm_built w self a n)"
proof (induction as arbitrary: self)
  case Nil
  then have "self' = self\<lparr>cm_found_news := cm_found_news self @ []\<rparr>" by simp
  then show ?case by fastforce
next
  case (Cons a as)
  from Cons.prems obtain mid where step: "cm_article w self a = Inr mid"
    and rest: "cm_articles w mid as = Inr self'"
    by (auto split: sum.splits)
  from Cons.IH [OF rest] obtain new where
    new: "self' = mid\<lparr>cm_found_news := cm_found_news mid @ new\<rparr>"
      "\<forall>n \<in> set new. \<exists>a \<in> set as. cm_built w mid a n"
    by blast
  from cm_article_shape [OF step] show ?case
  proof
    assume "mid = self"
    with new show ?thesis by auto
  next
    assume "\<exists>n. cm_built w self a n \<and> mid = self\<lparr>cm_found_news := cm_found_news self @ [n]\<rparr>"
    then obtain n where n: "cm_built w self a n"
      "mid = self\<lparr>cm_found_news := cm_found_news self @ [n]\<rparr>" by blast
    have "self' = self\<lparr>cm_found_news := cm_found_news self @ (n # new)\<rparr>"
      using new(1) n(2) by simp
    moreover have "\<forall>m \<in> set (n # new). \<exists>a' \<in> set (a # as). cm_built w self a' m"
      using new(2) n by auto
    ultimately show ?thesis by blast
  qed
qed

lemma cm_articles_keeps:
  "cm_articles w fr arts = Inr mid \<Longrightarrow>
     full_stop mid = full_stop fr \<and> topic mid = topic fr \<and> index mid = index fr"
  by (drule cm_articles_shape) auto

lemma cm_articles_append:
  "cm_articles w self (xs @ ys) =
     (case cm_articles w self xs of Inl e \<Rightarrow> Inl e | Inr mid \<Rightarrow> cm_articles w mid ys)"
  by (induction xs arbitrary: self) (auto split: sum.splits)

lemma cm_build_news_fields:
  assumes "cm_build_news w u d desc html = Inr n"
  shows "cm_url n = u \<and> cm_date n = d \<and> cm_description n = desc \<and>
    (\<exists>tree. detail_tree w html = Inr tree \<and>
       cm_authors n = [if author_spans tree \<noteq> [] then Author_Text (hd (author_spans tree))
                       else Author_Spans []])"
  using assms unfolding cm_build_news_def
  by (auto simp: Let_def hd_conv_nth split: sum.splits)

lemma cm_listing_item_range:
  assumes "cm_listing_item w self a = Inr (Some (u, d, desc))"
  shows "cm_start_date self < d \<and> d < cm_end_date self \<and> \<not> cm_denylisted u"
  using assms unfolding cm_listing_item_def
  by (auto split: sum.splits option.splits if_splits)

subsection \<open>The loop over the pages\<close>

lemma cm_loop_returned:
  "cm_search_loop w fuel fr = Returned fr' \<Longrightarrow> \<not> full_stop fr \<Longrightarrow>
     (\<exists>new. fr' = fr\<lparr>cm_found_news := cm_found_news fr @ new, index := index fr'\<rparr> \<and>
        (\<forall>n \<in> set new. \<exists>a. cm_built w fr a n)) \<and>
     (\<exists>k page. index fr' = index fr + 6 * k \<and> k < fuel \<and>
        requests_get w (cm_listing_url (topic fr) (index fr')) = Inr page \<and> empty_page page \<and>
        (\<forall>j<k. \<exists>p. requests_get w (cm_listing_url (topic fr) (index fr + 6 * j)) = Inr p \<and>
           \<not> empty_page p))"
proof (induction fuel arbitrary: fr)
  case 0
  then show ?case by simp
next
  case (Suc n)
  from Suc.prems(1) obtain html where
    html: "requests_get w (cm_listing_url (topic fr) (index fr)) = Inr html"
    by (auto split: sum.splits)
  show ?case
  proof (cases "empty_page html")
    case True
    with Suc.prems(1) html have same: "fr' = fr" by simp
    then have "fr' = fr\<lparr>cm_found_news := cm_found_news fr @ [], index := index fr'\<rparr>" by simp
    then have "\<exists>new. fr' = fr\<lparr>cm_found_news := cm_found_news fr @ new, index := index fr'\<rparr> \<and>
        (\<forall>n \<in> set new. \<exists>a. cm_built w fr a n)"
      by fastforce
    moreover have "index fr' = index fr + 6 * 0 \<and> 0 < Suc n \<and>
        requests_get w (cm_listing_url (topic fr) (index fr')) = Inr html \<and> empty_page html \<and>
        (\<forall>j<0. \<exists>p. requests_get w (cm_listing_url (topic fr) (index fr + 6 * j)) = Inr p \<and>
           \<not> empty_page p)"
      using same html True by simp
    ultimately show ?thesis by blast
  next
    case False
    with Suc.prems(1) html obtain arts mid where
      arts: "listing_articles w html = Inr arts" and
      mid: "cm_articles w fr arts = Inr mid" and
      rest: "(if full_stop mid then Returned mid
              else cm_search_loop w n (mid\<lparr>index := index mid + 6\<rparr>)) = Returned fr'"
      by (auto split: sum.splits)
    from cm_articles_shape [OF mid] obtain new1 where
      new1: "mid = fr\<lparr>cm_found_news := cm_found_news fr @ new1\<rparr>"
        "\<forall>n \<in> set new1. \<exists>a \<in> set arts. cm_built w fr a n"
      by blast
    from new1(1) Suc.prems(2) have nostop: "\<not> full_stop mid" by simp
    define nxt where "nxt = mid\<lparr>index := index mid + 6\<rparr>"
    from rest nostop have loop: "cm_search_loop w n nxt = Returned fr'"
      by (simp add: nxt_def)
    have nxt_stop: "\<not> full_stop nxt" using nostop by (simp add: nxt_def)
    from Suc.IH [OF loop nxt_stop] obtain new2 k page where
      new2: "fr' = nxt\<lparr>cm_found_news := cm_found_news nxt @ new2, index := index fr'\<rparr>"
        "\<forall>n \<in> set new2. \<exists>a. cm_built w nxt a n" and
      k: "index fr' = index nxt + 6 * k" "k < n"
        "requests_get w (cm_listing_url (topic nxt) (index fr')) = Inr page" "empty_page page"
        "\<forall>j<k. \<exists>p. requests_get w (cm_listing_url (topic nxt) (index nxt + 6 * j)) = Inr p \<and>
           \<not> empty_page p"
      by blast
    have nxt_fr: "topic nxt = topic fr" "index nxt = index fr + 6"
      "cm_start_date nxt = cm_start_date fr" "cm_end_date nxt = cm_end_date fr"
      by (simp_all add: nxt_def new1(1))
    have "fr' = fr\<lparr>cm_found_news := cm_found_news fr @ (new1 @ new2), index := index fr'\<rparr>"
      using new2(1) by (simp add: nxt_def new1(1))
    moreover have "\<forall>n \<in> set (new1 @ new2). \<exists>a. cm_built w fr a n"
      using new1(2) new2(2) cm_built_dates [OF nxt_fr(3) nxt_fr(4), of w] by auto
    moreover have "index fr' = index fr + 6 * Suc k" using k(1) nxt_fr(2) by simp
    moreover have "Suc k < Suc n" using k(2) by simp
    moreover have "requests_get w (cm_listing_url (topic fr) (index fr')) = Inr page"
      using k(3) nxt_fr(1) by simp
    moreover have "\<forall>j<Suc k. \<exists>p.
        requests_get w (cm_listing_url (topic fr) (index fr + 6 * j)) = Inr p \<and> \<not> empty_page p"
    proof (intro allI impI)
      fix j assume "j < Suc k"
      show "\<exists>p. requests_get w (cm_listing_url (topic fr) (index fr + 6 * j)) = Inr p \<and>
          \<not> empty_page p"
      proof (cases j)
        case 0
        with html False show ?thesis by simp
      next
        case (Suc i)
        with \<open>j < Suc k\<close> have "i < k" by simp
        with k(5) obtain p where
          "requests_get w (cm_listing_url (topic nxt) (index nxt + 6 * i)) = Inr p"
          "\<not> empty_page p" by blast
        moreover have "index nxt + 6 * i = index fr + 6 * j" using Suc nxt_fr(2) by simp
        ultimately show ?thesis using nxt_fr(1) by simp
      qed
    qed
    ultimately show ?thesis using k(4) by blast
  qed
qed

lemma cm_loop_is_paging:
  "\<not> full_stop fr \<Longrightarrow> cm_search_loop w fuel fr = cm_paging_loop w fuel fr"
proof (induction fuel arbitrary: fr)
  case 0
  show ?case by simp
next
  case (Suc n)
  have step: "(if full_stop mid then Returned mid
               else cm_search_loop w n (mid\<lparr>index := index mid + 6\<rparr>)) =
              cm_paging_loop w n (mid\<lparr>index := index mid + 6\<rparr>)"
    if "cm_articles w fr arts = Inr mid" for arts mid
  proof -
    from cm_articles_keeps [OF that] Suc.prems have "\<not> full_stop mid" by simp
    then show ?thesis using Suc.IH [of "mid\<lparr>index := index mid + 6\<rparr>"] by simp
  qed
  show ?case
    by (simp add: step split: sum.splits)
qed

lemma cm_loop_enough_fuel:
  "requests_get w (cm_listing_url (topic fr) (index fr + 6 * k)) = Inr page \<Longrightarrow>
     empty_page page \<Longrightarrow> k < fuel \<Longrightarrow> cm_search_loop w fuel fr \<noteq> Out_Of_Fuel"
proof (induction fuel arbitrary: fr k)
  case 0
  then show ?case by simp
next
  case (Suc n)
  have step: "cm_search_loop w n (mid\<lparr>index := index mid + 6\<rparr>) \<noteq> Out_Of_Fuel"
    if html: "requests_get w (cm_listing_url (topic fr) (index fr)) = Inr html"
      "\<not> empty_page html"
      and mid: "cm_articles w fr arts = Inr mid" for html arts mid
  proof -
    have "k \<noteq> 0" using html Suc.prems(1,2) by (cases k) auto
    then obtain k' where k': "k = Suc k'" by (cases k) auto
    from cm_articles_keeps [OF mid] have same: "topic mid = topic fr" "index mid = index fr"
      by simp_all
    have "requests_get w (cm_listing_url (topic (mid\<lparr>index := index mid + 6\<rparr>))
            (index (mid\<lparr>index := index mid + 6\<rparr>) + 6 * k')) = Inr page"
      using Suc.prems(1) by (simp add: same k' add.assoc)
    moreover have "k' < n" using Suc.prems(3) k' by simp
    ultimately show ?thesis using Suc.IH Suc.prems(2) by blast
  qed
  show ?case
    by (auto simp: step split: sum.splits)
qed


subsection \<open>No early stop\<close>

text \<open>
  Claim C4. A run of the scraped search is the same as a run of the loop that has no
  test of \<^verbatim>\<open>full_stop\<close> at all. When a run returns, \<^verbatim>\<open>full_stop\<close> is still false and
  the page it fetched last, at offset \<open>6 * k\<close>, is empty, all the pages before it being
  non-empty. And a run whose \<open>k\<close>-th page is empty does end, given more than \<open>k\<close> units
  of fuel: it does not go on fetching.
\<close>

theorem cm_search_no_early_stop:
  "cm_search w fuel self = cm_search_without_stop w fuel self \<and>
   (\<forall>fr. cm_search w fuel self = Returned fr \<longrightarrow>
      \<not> full_stop fr \<and>
      (\<exists>k page. index fr = 6 * k \<and> k < fuel \<and>
         requests_get w (cm_listing_url (topic self) (6 * k)) = Inr page \<and> empty_page page \<and>
         (\<forall>j<k. \<exists>p. requests_get w (cm_listing_url (topic self) (6 * j)) = Inr p \<and>
            \<not> empty_page p))) \<and>
   (\<forall>k page. requests_get w (cm_listing_url (topic self) (6 * k)) = Inr page \<and>
      empty_page page \<and> k < fuel \<longrightarrow> cm_search w fuel self \<noteq> Out_Of_Fuel)"
proof -
  define fr0 where "fr0 = \<lparr>topic = topic self, cm_start_date = cm_start_date self,
    cm_end_date = cm_end_date self, cm_found_news = cm_found_news self, index = 0,
    full_stop = False\<rparr>"
  have fr0: "\<not> full_stop fr0" "topic fr0 = topic self" "index fr0 = 0"
    by (simp_all add: fr0_def)
  have run: "cm_search w fuel self = cm_search_loop w fuel fr0"
    by (simp add: cm_search_def fr0_def)
  have same: "cm_search w fuel self = cm_search_without_stop w fuel self"
    unfolding run cm_search_without_stop_def fr0_def [symmetric]
    by (rule cm_loop_is_paging [OF fr0(1)])
  have ret: "\<not> full_stop fr \<and>
      (\<exists>k page. index fr = 6 * k \<and> k < fuel \<and>
         requests_get w (cm_listing_url (topic self) (6 * k)) = Inr page \<and> empty_page page \<and>
         (\<forall>j<k. \<exists>p. requests_get w (cm_listing_url (topic self) (6 * j)) = Inr p \<and>
            \<not> empty_page p))"
    if "cm_search w fuel self = Returned fr" for fr
  proof -
    from that have loop: "cm_search_loop w fuel fr0 = Returned fr" by (simp add: run)
    from cm_loop_returned [OF loop fr0(1)] obtain new k page where
      new: "fr = fr0\<lparr>cm_found_news := cm_found_news fr0 @ new, index := index fr\<rparr>" and
      k: "index fr = index fr0 + 6 * k" "k < fuel"
        "requests_get w (cm_listing_url (topic fr0) (index fr)) = Inr page" "empty_page page"
        "\<forall>j<k. \<exists>p. requests_get w (cm_listing_url (topic fr0) (index fr0 + 6 * j)) = Inr p \<and>
           \<not> empty_page p"
      by blast
    have "full_stop (fr0\<lparr>cm_found_news := cm_found_news fr0 @ new, index := index fr\<rparr>) = False"
      using fr0(1) by simp
    with new have "\<not> full_stop fr" by simp
    with k show ?thesis unfolding fr0(2,3) by auto
  qed
  have fuel: "cm_search w fuel self \<noteq> Out_Of_Fuel"
    if "requests_get w (cm_listing_url (topic self) (6 * k)) = Inr page" "empty_page page" "k < fuel"
    for k page
    unfolding run using cm_loop_enough_fuel [of w fr0 k page fuel] that by (simp add: fr0)
  from same ret fuel show ?thesis by blast
qed

theorem cm_search_no_early_stop_witness:
  "cm_search (demo_cm_world [[article_um], [article_anonima]]) 5 demo_cm_search =
     Returned \<lparr>topic = ''covid 19'', cm_start_date = 0, cm_end_date = 2592000,
       cm_found_news = [news_um, news_anonima], index = 12, full_stop = False\<rparr> \<and>
   cm_search_without_stop (demo_cm_world [[article_um], [article_anonima]]) 5 demo_cm_search =
     cm_search (demo_cm_world [[article_um], [article_anonima]]) 5 demo_cm_search \<and>
   cm_search (demo_cm_world [[article_um], [article_anonima]]) 5 demo_cm_search \<noteq> Out_Of_Fuel"
proof -
  define w where "w = demo_cm_world [[article_um], [article_anonima]]"
  have run: "cm_search w 5 demo_cm_search =
    Returned \<lparr>topic = ''covid 19'', cm_start_date = 0, cm_end_date = 2592000,
      cm_found_news = [news_um, news_anonima], index = 12, full_stop = False\<rparr>"
    unfolding w_def by code_simp
  have last: "requests_get w (cm_listing_url (topic demo_cm_search) (6 * 2)) = Inr [] \<and>
      empty_page [] \<and> (2 :: nat) < 5"
    unfolding w_def by code_simp
  from cm_search_no_early_stop [of w 5 demo_cm_search] last
  have "cm_search w 5 demo_cm_search = cm_search_without_stop w 5 demo_cm_search"
    and "cm_search w 5 demo_cm_search \<noteq> Out_Of_Fuel"
    by blast+
  with run show ?thesis unfolding w_def by simp
qed


subsection \<open>A detail page that is gone\<close>

lemma cm_article_skip:
  assumes "cm_listing_item w self a = Inr (Some (u, d, desc))"
    and "send_post_then_get_html_string w u = Inr resp"
    and "status_code resp \<noteq> 200"
    and "cm_start_date s = cm_start_date self" "cm_end_date s = cm_end_date self"
  shows "cm_article w s a = Inr s"
proof -
  from cm_listing_item_dates [OF assms(4,5), of w a] assms(1)
  have "cm_listing_item w s a = Inr (Some (u, d, desc))" by simp
  with assms(2,3) show ?thesis by (simp add: cm_article_def)
qed

lemma cm_listing_item_without:
  "cm_listing_item (without_article w a) self x = cm_listing_item w self x"
  by (simp add: cm_listing_item_def without_article_def
      cong: if_cong sum.case_cong option.case_cong)

lemma cm_build_news_without:
  "cm_build_news (without_article w a) = cm_build_news w"
  by (simp add: cm_build_news_def without_article_def fun_eq_iff
      cong: if_cong sum.case_cong option.case_cong)

lemma cm_article_without [simp]: "cm_article (without_article w a) self x = cm_article w self x"
proof -
  have "send_post_then_get_html_string (without_article w a) = send_post_then_get_html_string w"
    by (simp add: without_article_def)
  then show ?thesis
    by (simp add: cm_article_def cm_listing_item_without cm_build_news_without
        cong: if_cong sum.case_cong option.case_cong prod.case_cong)
qed

lemma cm_articles_without [simp]:
  "cm_articles (without_article w a) self xs = cm_articles w self xs"
  by (induction xs arbitrary: self) (simp_all cong: sum.case_cong)

lemma cm_articles_filter:
  assumes "cm_listing_item w self a = Inr (Some (u, d, desc))"
    and "send_post_then_get_html_string w u = Inr resp"
    and "status_code resp \<noteq> 200"
  shows "cm_start_date s = cm_start_date self \<Longrightarrow> cm_end_date s = cm_end_date self \<Longrightarrow>
    cm_articles w s (filter (\<lambda>x. x \<noteq> a) xs) = cm_articles w s xs"
proof (induction xs arbitrary: s)
  case Nil
  show ?case by simp
next
  case (Cons x xs)
  show ?case
  proof (cases "x = a")
    case True
    with cm_article_skip [OF assms Cons.prems] Cons.IH [OF Cons.prems] show ?thesis by simp
  next
    case False
    have "cm_articles w mid (filter (\<lambda>x. x \<noteq> a) xs) = cm_articles w mid xs"
      if "cm_article w s x = Inr mid" for mid
    proof -
      from cm_article_shape [OF that] Cons.prems
      have "cm_start_date mid = cm_start_date self" "cm_end_date mid = cm_end_date self"
        by auto
      from Cons.IH [OF this] show ?thesis .
    qed
    with False show ?thesis by (simp split: sum.splits)
  qed
qed

lemma cm_loop_without:
  assumes "cm_listing_item w self a = Inr (Some (u, d, desc))"
    and "send_post_then_get_html_string w u = Inr resp"
    and "status_code resp \<noteq> 200"
  shows "cm_start_date fr = cm_start_date self \<Longrightarrow> cm_end_date fr = cm_end_date self \<Longrightarrow>
    cm_search_loop (without_article w a) fuel fr = cm_search_loop w fuel fr"
proof (induction fuel arbitrary: fr)
  case 0
  show ?case by simp
next
  case (Suc n)
  have get: "requests_get (without_article w a) = requests_get w"
    by (simp add: without_article_def)
  have listing: "listing_articles (without_article w a) h =
      (case listing_articles w h of Inl e \<Rightarrow> Inl e
       | Inr arts \<Rightarrow> Inr (filter (\<lambda>x. x \<noteq> a) arts))" for h
    by (simp add: without_article_def)
  have step: "cm_search_loop (without_article w a) n (mid\<lparr>index := index mid + 6\<rparr>) =
      cm_search_loop w n (mid\<lparr>index := index mid + 6\<rparr>)"
    if "cm_articles w fr arts = Inr mid" for arts mid
  proof -
    from cm_articles_shape [OF that] Suc.prems
    have "cm_start_date (mid\<lparr>index := index mid + 6\<rparr>) = cm_start_date self"
      "cm_end_date (mid\<lparr>index := index mid + 6\<rparr>) = cm_end_date self"
      by auto
    from Suc.IH [OF this] show ?thesis .
  qed
  show ?case
    by (simp add: get listing cm_articles_filter [OF assms Suc.prems] step split: sum.splits)
qed

text \<open>
  Claim C6. Take an item for which the loop body gets as far as the detail page (the
  listing gives its URL, a date in range and a description) and whose detail page
  comes back with a status other than 200. The body leaves the object as it is and does
  not raise; a page with this item is processed to the same result, exception or
  object, as the page without it; and the whole run gives the result that it gives when
  the item is on no page at all.
\<close>

theorem cm_detail_failure_skips:
  assumes "cm_listing_item w self a = Inr (Some (u, d, desc))"
    and "send_post_then_get_html_string w u = Inr resp"
    and "status_code resp \<noteq> 200"
  shows "cm_article w self a = Inr self \<and>
    cm_articles w self (before @ a # after) = cm_articles w self (before @ after) \<and>
    cm_search (without_article w a) fuel self = cm_search w fuel self"
proof -
  have "cm_articles w mid (a # after) = cm_articles w mid after"
    if "cm_articles w self before = Inr mid" for mid
  proof -
    from cm_articles_shape [OF that] have "cm_start_date mid = cm_start_date self"
      "cm_end_date mid = cm_end_date self" by auto
    from cm_article_skip [OF assms this] show ?thesis by simp
  qed
  then have "cm_articles w self (before @ a # after) = cm_articles w self (before @ after)"
    by (simp add: cm_articles_append split: sum.splits)
  moreover have "cm_search (without_article w a) fuel self = cm_search w fuel self"
    unfolding cm_search_def by (rule cm_loop_without [OF assms]) simp_all
  ultimately show ?thesis using cm_article_skip [OF assms refl refl] by simp
qed

theorem cm_detail_failure_skips_witness:
  "cm_articles (demo_cm_world []) demo_cm_search [article_um, article_apagada, article_anonima] =
     cm_articles (demo_cm_world []) demo_cm_search [article_um, article_anonima] \<and>
   cm_articles (demo_cm_world []) demo_cm_search [article_um, article_apagada, article_anonima] =
     Inr (demo_cm_search\<lparr>cm_found_news := [news_um, news_anonima]\<rparr>) \<and>
   cm_article (demo_cm_world []) demo_cm_search article_apagada = Inr demo_cm_search \<and>
   cm_search (demo_cm_world [[article_um, article_apagada], [article_anonima]]) 5 demo_cm_search =
     cm_search (without_article (demo_cm_world [[article_um, article_apagada], [article_anonima]])
       article_apagada) 5 demo_cm_search \<and>
   cm_search (demo_cm_world [[article_um, article_apagada], [article_anonima]]) 5 demo_cm_search =
     Returned \<lparr>topic = ''covid 19'', cm_start_date = 0, cm_end_date = 2592000,
       cm_found_news = [news_um, news_anonima], index = 12, full_stop = False\<rparr>"
proof -
  define w where "w = demo_cm_world [[article_um, article_apagada], [article_anonima]]"
  have listing: "cm_listing_item (demo_cm_world []) demo_cm_search article_apagada =
      Inr (Some (''https://www.cmjornal.pt/sociedade/detalhe/apagada'', 345600, Some ''lead''))"
    "cm_listing_item w demo_cm_search article_apagada =
      Inr (Some (''https://www.cmjornal.pt/sociedade/detalhe/apagada'', 345600, Some ''lead''))"
    unfolding w_def by code_simp+
  have gone: "send_post_then_get_html_string (demo_cm_world [])
      ''https://www.cmjornal.pt/sociedade/detalhe/apagada'' =
      Inr \<lparr>status_code = 404, response_text = []\<rparr>"
    "send_post_then_get_html_string w
      ''https://www.cmjornal.pt/sociedade/detalhe/apagada'' =
      Inr \<lparr>status_code = 404, response_text = []\<rparr>"
    unfolding w_def by code_simp+
  have status: "status_code \<lparr>status_code = 404, response_text = []\<rparr> \<noteq> 200"
    by simp
  have page: "cm_articles (demo_cm_world []) demo_cm_search [article_um, article_anonima] =
      Inr (demo_cm_search\<lparr>cm_found_news := [news_um, news_anonima]\<rparr>)"
    by code_simp
  have run: "cm_search w 5 demo_cm_search =
      Returned \<lparr>topic = ''covid 19'', cm_start_date = 0, cm_end_date = 2592000,
        cm_found_news = [news_um, news_anonima], index = 12, full_stop = False\<rparr>"
    unfolding w_def by code_simp
  from cm_detail_failure_skips [OF listing(1) gone(1) status, of "[article_um]" "[article_anonima]"]
    page
  have pages: "cm_articles (demo_cm_world []) demo_cm_search
        [article_um, article_apagada, article_anonima] =
      Inr (demo_cm_search\<lparr>cm_found_news := [news_um, news_anonima]\<rparr>)"
    "cm_article (demo_cm_world []) demo_cm_search article_apagada = Inr demo_cm_search"
    by simp_all
  from cm_detail_failure_skips [OF listing(2) gone(2) status, of _ _ 5]
  have "cm_search (without_article w article_apagada) 5 demo_cm_search =
      cm_search w 5 demo_cm_search"
    by simp
  with pages page run show ?thesis unfolding w_def by simp
qed

subsection \<open>The authors of a record\<close>

text \<open>
  Claim C10. The authors of a record are a list of one element: the text of the first
  author span of the detail page when there is one, and the empty list (of spans)
  when there is none. This holds for every record the code builds, and so for every
  record a run adds to \<^verbatim>\<open>found_news\<close>, whose detail page is the one fetched for
  its URL.
\<close>

theorem cm_authors_singleton:
  "(\<forall>u d desc html n. cm_build_news w u d desc html = Inr n \<longrightarrow>
      (\<exists>tree. detail_tree w html = Inr tree \<and>
         cm_authors n = [if author_spans tree \<noteq> [] then Author_Text (hd (author_spans tree))
                         else Author_Spans []])) \<and>
   (\<forall>fr. cm_search w fuel self = Returned fr \<longrightarrow>
      (\<exists>new. cm_found_news fr = cm_found_news self @ new \<and>
         (\<forall>n \<in> set new. \<exists>resp tree.
            send_post_then_get_html_string w (cm_url n) = Inr resp \<and> status_code resp = 200 \<and>
            detail_tree w (response_text resp) = Inr tree \<and>
            cm_authors n = [if author_spans tree \<noteq> [] then Author_Text (hd (author_spans tree))
                            else Author_Spans []])))"
proof (intro conjI allI impI)
  fix u d desc html n
  assume "cm_build_news w u d desc html = Inr n"
  from cm_build_news_fields [OF this]
  show "\<exists>tree. detail_tree w html = Inr tree \<and>
         cm_authors n = [if author_spans tree \<noteq> [] then Author_Text (hd (author_spans tree))
                         else Author_Spans []]"
    by blast
next
  fix fr
  assume ret: "cm_search w fuel self = Returned fr"
  define fr0 where "fr0 = \<lparr>topic = topic self, cm_start_date = cm_start_date self,
    cm_end_date = cm_end_date self, cm_found_news = cm_found_news self, index = 0,
    full_stop = False\<rparr>"
  from ret have loop: "cm_search_loop w fuel fr0 = Returned fr"
    by (simp add: cm_search_def fr0_def)
  have "\<not> full_stop fr0" by (simp add: fr0_def)
  from cm_loop_returned [OF loop this] obtain new where
    new: "fr = fr0\<lparr>cm_found_news := cm_found_news fr0 @ new, index := index fr\<rparr>"
      "\<forall>n \<in> set new. \<exists>a. cm_built w fr0 a n"
    by blast
  have "cm_found_news (fr0\<lparr>cm_found_news := cm_found_news fr0 @ new, index := index fr\<rparr>) =
      cm_found_news self @ new"
    by (simp add: fr0_def)
  with new(1) have found: "cm_found_news fr = cm_found_news self @ new" by simp
  have "\<exists>resp tree.
      send_post_then_get_html_string w (cm_url n) = Inr resp \<and> status_code resp = 200 \<and>
      detail_tree w (response_text resp) = Inr tree \<and>
      cm_authors n = [if author_spans tree \<noteq> [] then Author_Text (hd (author_spans tree))
                      else Author_Spans []]"
    if "n \<in> set new" for n
  proof -
    from new(2) that obtain a u d desc resp where
      resp: "send_post_then_get_html_string w u = Inr resp" "status_code resp = 200" and
      built: "cm_build_news w u d desc (response_text resp) = Inr n"
      unfolding cm_built_def by blast
    from cm_build_news_fields [OF built] resp show ?thesis by auto
  qed
  with found show "\<exists>new. cm_found_news fr = cm_found_news self @ new \<and>
         (\<forall>n \<in> set new. \<exists>resp tree.
            send_post_then_get_html_string w (cm_url n) = Inr resp \<and> status_code resp = 200 \<and>
            detail_tree w (response_text resp) = Inr tree \<and>
            cm_authors n = [if author_spans tree \<noteq> [] then Author_Text (hd (author_spans tree))
                            else Author_Spans []])"
    by blast
qed

theorem cm_authors_singleton_witness:
  "cm_build_news (demo_cm_world []) ''https://www.cmjornal.pt/sociedade/detalhe/um'' 345600
     (Some ''lead'') ''https://www.cmjornal.pt/sociedade/detalhe/um'' = Inr news_um \<and>
   (\<exists>tree. detail_tree (demo_cm_world []) ''https://www.cmjornal.pt/sociedade/detalhe/um'' = Inr tree \<and>
      author_spans tree = [Some ''Ana'', Some ''Rui''] \<and>
      cm_authors news_um = [Author_Text (Some ''Ana'')]) \<and>
   cm_authors news_anonima = [Author_Spans []]"
proof -
  have built: "cm_build_news (demo_cm_world []) ''https://www.cmjornal.pt/sociedade/detalhe/um''
      345600 (Some ''lead'') ''https://www.cmjornal.pt/sociedade/detalhe/um'' = Inr news_um"
    by code_simp
  have page: "detail_tree (demo_cm_world []) ''https://www.cmjornal.pt/sociedade/detalhe/um'' =
      Inr \<lparr>author_spans = [Some ''Ana'', Some ''Rui''], h1_titles = [Some ''Titulo''],
        text_nodes = [''Corpo'', ''da noticia. Para aceder a todos os Exclusivos CM assine'']\<rparr>"
    by code_simp
  have anon: "cm_authors news_anonima = [Author_Spans []]"
    by code_simp
  from cm_authors_singleton [of "demo_cm_world []" 0 demo_cm_search] built
  obtain tree where "detail_tree (demo_cm_world []) ''https://www.cmjornal.pt/sociedade/detalhe/um'' = Inr tree"
    "cm_authors news_um = [if author_spans tree \<noteq> [] then Author_Text (hd (author_spans tree))
                         else Author_Spans []]"
    by blast
  with page have "author_spans tree = [Some ''Ana'', Some ''Rui'']"
    "cm_authors news_um = [Author_Text (Some ''Ana'')]" by auto
  with built page anon show ?thesis by auto
qed


section \<open>Properties of the API source\<close>

subsection \<open>Adding a record\<close>

lemma py_in_url: "py_in n ns \<longleftrightarrow> news_url n \<in> news_url ` set ns"
  by (induction ns) (auto simp: py_in_def news_eq_def)

lemma add_news_shape:
  assumes "add_news w it self = Inr self'"
  shows "self' = self \<or>
    (\<exists>n. deserialize_news w it = Inr (Some n) \<and> \<not> py_in n (found_news self) \<and>
       self' = self\<lparr>found_news := found_news self @ [n]\<rparr>)"
  using assms unfolding add_news_def
  by (auto split: sum.splits option.splits if_splits)

subsection \<open>The trace of a run of the topic search\<close>

lemma quiet_Nil [simp]: "quiet w s []"
  by (simp add: quiet_def)

lemma quiet_snoc_Eval [simp]:
  "quiet w s (t @ [Eval it]) \<longleftrightarrow> quiet w s t \<and> \<not> old_item w s it"
  by (auto simp: quiet_def)

lemma quiet_snoc_Fetch [simp]: "quiet w s (t @ [Fetch u]) \<longleftrightarrow> quiet w s t"
  by (auto simp: quiet_def)

lemma topic_accepted_snoc:
  "topic_accepted w s e t n \<Longrightarrow> topic_accepted w s e (t @ [x]) n"
  by (auto simp: topic_accepted_def)

lemma topic_items_Cons:
  assumes "topic_items w (it # rest) fr = (r, fr')"
  defines "fr1 \<equiv> fr\<lparr>trace := trace fr @ [Eval it]\<rparr>"
  shows
    "(\<exists>e. parse_date w (map_of it ''data'') = Inl e \<and> r = Some e \<and> fr' = fr1) \<or>
     (\<exists>d. parse_date w (map_of it ''data'') = Inr d \<and> d < start_date fr \<and> r = None \<and>
        fr' = fr1\<lparr>stop_entire_search := True\<rparr>) \<or>
     (\<exists>d. parse_date w (map_of it ''data'') = Inr d \<and> \<not> d < start_date fr \<and>
        end_date fr < d \<and> topic_items w rest fr1 = (r, fr')) \<or>
     (\<exists>d e. parse_date w (map_of it ''data'') = Inr d \<and> start_date fr \<le> d \<and>
        d \<le> end_date fr \<and> add_news w it fr1 = Inl e \<and> r = Some e \<and> fr' = fr1) \<or>
     (\<exists>d fr2. parse_date w (map_of it ''data'') = Inr d \<and> start_date fr \<le> d \<and>
        d \<le> end_date fr \<and> add_news w it fr1 = Inr fr2 \<and> topic_items w rest fr2 = (r, fr'))"
  using assms(1) unfolding fr1_def
  by (auto simp: Let_def split: sum.splits if_splits)

lemma topic_items_keeps:
  "topic_items w items fr = (r, fr') \<Longrightarrow>
     start_date fr' = start_date fr \<and> end_date fr' = end_date fr \<and>
     page_number fr' = page_number fr \<and> search_topic fr' = search_topic fr"
proof (induction items arbitrary: fr)
  case Nil
  then show ?case by simp
next
  case (Cons it rest)
  from topic_items_Cons [OF Cons.prems] show ?case
  proof (elim disjE exE conjE)
    fix d fr2
    assume "add_news w it (fr\<lparr>trace := trace fr @ [Eval it]\<rparr>) = Inr fr2"
      and rest: "topic_items w rest fr2 = (r, fr')"
    from add_news_shape [OF this(1)] Cons.IH [OF rest] show ?thesis by auto
  next
    fix d
    assume "topic_items w rest (fr\<lparr>trace := trace fr @ [Eval it]\<rparr>) = (r, fr')"
    from Cons.IH [OF this] show ?thesis by simp
  qed simp_all
qed

lemma topic_items_trace:
  "topic_items w items fr = (r, fr') \<Longrightarrow> quiet w (start_date fr) (trace fr) \<Longrightarrow>
     (quiet w (start_date fr) (trace fr') \<and> stop_entire_search fr' = stop_entire_search fr) \<or>
     (r = None \<and> stop_entire_search fr' \<and>
        (\<exists>t0 it. trace fr' = t0 @ [Eval it] \<and> quiet w (start_date fr) t0 \<and>
           old_item w (start_date fr) it))"
proof (induction items arbitrary: fr)
  case Nil
  then show ?case by simp
next
  case (Cons it rest)
  from topic_items_Cons [OF Cons.prems(1)] show ?case
  proof (elim disjE exE conjE)
    fix e
    assume "parse_date w (map_of it ''data'') = Inl e" "fr' = fr\<lparr>trace := trace fr @ [Eval it]\<rparr>"
    with Cons.prems(2) show ?thesis by (simp add: old_item_def)
  next
    fix d
    assume "parse_date w (map_of it ''data'') = Inr d" "d < start_date fr" "r = None"
      "fr' = fr\<lparr>trace := trace fr @ [Eval it]\<rparr>\<lparr>stop_entire_search := True\<rparr>"
    with Cons.prems(2) show ?thesis by (auto simp: old_item_def)
  next
    fix d
    assume d: "parse_date w (map_of it ''data'') = Inr d" "\<not> d < start_date fr"
      and rest: "topic_items w rest (fr\<lparr>trace := trace fr @ [Eval it]\<rparr>) = (r, fr')"
    have "quiet w (start_date (fr\<lparr>trace := trace fr @ [Eval it]\<rparr>))
        (trace (fr\<lparr>trace := trace fr @ [Eval it]\<rparr>))"
      using Cons.prems(2) d by (simp add: old_item_def)
    from Cons.IH [OF rest this] show ?thesis by simp
  next
    fix d e
    assume "parse_date w (map_of it ''data'') = Inr d" "start_date fr \<le> d"
      "fr' = fr\<lparr>trace := trace fr @ [Eval it]\<rparr>"
    with Cons.prems(2) show ?thesis by (simp add: old_item_def)
  next
    fix d fr2
    assume d: "parse_date w (map_of it ''data'') = Inr d" "start_date fr \<le> d"
      and add: "add_news w it (fr\<lparr>trace := trace fr @ [Eval it]\<rparr>) = Inr fr2"
      and rest: "topic_items w rest fr2 = (r, fr')"
    from add_news_shape [OF add] have fr2: "trace fr2 = trace fr @ [Eval it]"
      "start_date fr2 = start_date fr" "stop_entire_search fr2 = stop_entire_search fr"
      by auto
    have "quiet w (start_date fr2) (trace fr2)"
      using Cons.prems(2) d by (simp add: fr2 old_item_def)
    from Cons.IH [OF rest this] show ?thesis by (simp add: fr2)
  qed
qed

lemma topic_items_found:
  "topic_items w items fr = (r, fr') \<Longrightarrow>
     \<forall>n \<in> set (found_news fr). n \<in> set base \<or>
        topic_accepted w (start_date fr) (end_date fr) (trace fr) n \<Longrightarrow>
     \<forall>n \<in> set (found_news fr'). n \<in> set base \<or>
        topic_accepted w (start_date fr) (end_date fr) (trace fr') n"
proof (induction items arbitrary: fr)
  case Nil
  then show ?case by simp
next
  case (Cons it rest)
  define fr1 where "fr1 = fr\<lparr>trace := trace fr @ [Eval it]\<rparr>"
  have inv1: "\<forall>n \<in> set (found_news fr1). n \<in> set base \<or>
      topic_accepted w (start_date fr1) (end_date fr1) (trace fr1) n"
    using Cons.prems(2) by (auto simp: fr1_def intro: topic_accepted_snoc)
  from topic_items_Cons [OF Cons.prems(1)] show ?case
    unfolding fr1_def [symmetric]
  proof (elim disjE exE conjE)
    fix d
    assume "topic_items w rest fr1 = (r, fr')"
    from Cons.IH [OF this inv1] show ?thesis by (simp add: fr1_def)
  next
    fix d fr2
    assume d: "parse_date w (map_of it ''data'') = Inr d" "start_date fr \<le> d" "d \<le> end_date fr"
      and add: "add_news w it fr1 = Inr fr2"
      and rest: "topic_items w rest fr2 = (r, fr')"
    have "\<forall>n \<in> set (found_news fr2). n \<in> set base \<or>
        topic_accepted w (start_date fr2) (end_date fr2) (trace fr2) n"
      using add_news_shape [OF add]
    proof
      assume "fr2 = fr1"
      with inv1 show ?thesis by simp
    next
      assume "\<exists>n. deserialize_news w it = Inr (Some n) \<and> \<not> py_in n (found_news fr1) \<and>
          fr2 = fr1\<lparr>found_news := found_news fr1 @ [n]\<rparr>"
      then obtain n where n: "deserialize_news w it = Inr (Some n)"
        "fr2 = fr1\<lparr>found_news := found_news fr1 @ [n]\<rparr>" by blast
      have "topic_accepted w (start_date fr1) (end_date fr1) (trace fr1) n"
        unfolding topic_accepted_def using n(1) d by (auto simp: fr1_def)
      with inv1 show ?thesis by (auto simp: n(2))
    qed
    from Cons.IH [OF rest this] add_news_shape [OF add] show ?thesis
      by (auto simp: fr1_def)
  qed (use inv1 in \<open>auto simp: fr1_def\<close>)
qed


lemma topic_loop_Suc:
  assumes "topic_loop w (Suc n) fr = (st, fr')"
  defines "fr1 \<equiv> fr\<lparr>trace := trace fr @ [Fetch (topic_api_url w fr)]\<rparr>"
  shows
    "(\<exists>e. requests_get w (topic_api_url w fr) = Inl e \<and> st = Raising e \<and> fr' = fr1) \<or>
     (requests_get w (topic_api_url w fr) = Inr ''[]'' \<and> st = Finished \<and> fr' = fr1) \<or>
     (\<exists>r e. requests_get w (topic_api_url w fr) = Inr r \<and> r \<noteq> ''[]'' \<and>
        json_loads w r = Inl e \<and> st = Raising e \<and> fr' = fr1) \<or>
     (\<exists>r data ro fr2. requests_get w (topic_api_url w fr) = Inr r \<and> r \<noteq> ''[]'' \<and>
        json_loads w r = Inr data \<and> topic_items w data fr1 = (ro, fr2) \<and>
        ((\<exists>e. ro = Some e \<and> st = Raising e \<and> fr' = fr2) \<or>
         (ro = None \<and> stop_entire_search fr2 \<and> st = Finished \<and> fr' = fr2) \<or>
         (ro = None \<and> \<not> stop_entire_search fr2 \<and>
            topic_loop w n (fr2\<lparr>page_number := page_number fr2 + 1\<rparr>) = (st, fr'))))"
  using assms(1) unfolding fr1_def
  by (auto simp: Let_def split: sum.splits if_splits prod.splits option.splits)

lemma topic_loop_inv:
  "topic_loop w fuel fr = (st, fr') \<Longrightarrow> \<not> stop_entire_search fr \<Longrightarrow>
   quiet w (start_date fr) (trace fr) \<Longrightarrow>
   \<forall>n \<in> set (found_news fr). n \<in> set base \<or>
      topic_accepted w (start_date fr) (end_date fr) (trace fr) n \<Longrightarrow>
     start_date fr' = start_date fr \<and> end_date fr' = end_date fr \<and>
     (\<forall>n \<in> set (found_news fr'). n \<in> set base \<or>
        topic_accepted w (start_date fr) (end_date fr) (trace fr') n) \<and>
     (quiet w (start_date fr) (trace fr') \<and> \<not> stop_entire_search fr' \<or>
      st = Finished \<and> stop_entire_search fr' \<and>
        (\<exists>t0 it. trace fr' = t0 @ [Eval it] \<and> quiet w (start_date fr) t0 \<and>
           old_item w (start_date fr) it))"
proof (induction fuel arbitrary: fr)
  case 0
  then show ?case by simp
next
  case (Suc n)
  define fr1 where "fr1 = fr\<lparr>trace := trace fr @ [Fetch (topic_api_url w fr)]\<rparr>"
  have fr1: "start_date fr1 = start_date fr" "end_date fr1 = end_date fr"
    "\<not> stop_entire_search fr1" "quiet w (start_date fr1) (trace fr1)"
    "\<forall>n \<in> set (found_news fr1). n \<in> set base \<or>
       topic_accepted w (start_date fr1) (end_date fr1) (trace fr1) n"
    using Suc.prems(2-4) by (auto simp: fr1_def intro: topic_accepted_snoc)
  from topic_loop_Suc [OF Suc.prems(1)] show ?case
    unfolding fr1_def [symmetric]
  proof (elim disjE exE conjE)
    fix r data ro fr2 e
    assume items: "topic_items w data fr1 = (ro, fr2)" and "ro = Some e" "st = Raising e" "fr' = fr2"
    with topic_items_keeps [OF items] topic_items_trace [OF items fr1(4)]
      topic_items_found [OF items fr1(5)] fr1(1-3)
    show ?thesis by auto
  next
    fix r data ro fr2
    assume items: "topic_items w data fr1 = (ro, fr2)" and "ro = None" "stop_entire_search fr2"
      "st = Finished" "fr' = fr2"
    with topic_items_keeps [OF items] topic_items_trace [OF items fr1(4)]
      topic_items_found [OF items fr1(5)] fr1(1-3)
    show ?thesis by auto
  next
    fix r data ro fr2
    assume items: "topic_items w data fr1 = (ro, fr2)" and "\<not> stop_entire_search fr2"
      and loop: "topic_loop w n (fr2\<lparr>page_number := page_number fr2 + 1\<rparr>) = (st, fr')"
    define fr3 where "fr3 = fr2\<lparr>page_number := page_number fr2 + 1\<rparr>"
    have fr3: "start_date fr3 = start_date fr" "end_date fr3 = end_date fr"
      "\<not> stop_entire_search fr3" "quiet w (start_date fr3) (trace fr3)"
      "\<forall>n \<in> set (found_news fr3). n \<in> set base \<or>
         topic_accepted w (start_date fr3) (end_date fr3) (trace fr3) n"
      using topic_items_keeps [OF items] topic_items_trace [OF items fr1(4)]
        topic_items_found [OF items fr1(5)] fr1(1-3) \<open>\<not> stop_entire_search fr2\<close>
      by (auto simp: fr3_def)
    from Suc.IH [OF loop [folded fr3_def] fr3(3-5)] show ?thesis
      by (simp add: fr3(1,2))
  qed (use fr1 in auto)
qed

lemma quiet_last_old:
  assumes "t0 @ [Eval x] = before @ Eval it # after" "quiet w s t0" "old_item w s it"
  shows "after = []"
proof (rule ccontr)
  assume "after \<noteq> []"
  then obtain rest where "after = rest @ [last after]"
    by (metis append_butlast_last_id)
  with assms(1) have "t0 @ [Eval x] = (before @ Eval it # rest) @ [last after]" by simp
  then have "t0 = before @ Eval it # rest" by (simp only: append1_eq_conv)
  with assms(2,3) show False by (auto simp: quiet_def)
qed

lemma topic_consume_api_inv:
  assumes "topic_consume_api w fuel self = (st, fr)"
  shows
    "(\<forall>n \<in> set (found_news fr). n \<in> set (found_news self) \<or>
        topic_accepted w (start_date self) (end_date self) (trace fr) n) \<and>
     (quiet w (start_date self) (trace fr) \<and> \<not> stop_entire_search fr \<or>
      st = Finished \<and> stop_entire_search fr \<and>
        (\<exists>t0 it. trace fr = t0 @ [Eval it] \<and> quiet w (start_date self) t0 \<and>
           old_item w (start_date self) it))"
proof -
  define fr0 where "fr0 = \<lparr>found_news = found_news self, page_number = page_number self,
    start_date = start_date self, end_date = end_date self,
    search_topic = search_topic self, stop_entire_search = False, trace = []\<rparr>"
  have fr0: "start_date fr0 = start_date self" "end_date fr0 = end_date self"
    "\<not> stop_entire_search fr0" "quiet w (start_date fr0) (trace fr0)"
    "\<forall>n \<in> set (found_news fr0). n \<in> set (found_news self) \<or>
       topic_accepted w (start_date fr0) (end_date fr0) (trace fr0) n"
    by (simp_all add: fr0_def)
  from assms have loop: "topic_loop w fuel fr0 = (st, fr)"
    by (simp add: topic_consume_api_def fr0_def)
  from topic_loop_inv [OF loop fr0(3-5), unfolded fr0(1,2)] show ?thesis by blast
qed

lemma topic_items_after_old:
  "parse_date w (map_of it ''data'') = Inr d \<Longrightarrow> d < start_date fr \<Longrightarrow>
     topic_items w (pre @ it # post) fr = topic_items w (pre @ [it]) fr"
proof (induction pre arbitrary: fr)
  case Nil
  then show ?case by (simp add: Let_def)
next
  case (Cons x pre)
  have ih: "topic_items w (pre @ it # post) f = topic_items w (pre @ [it]) f"
    if "start_date f = start_date fr" for f
    using Cons.IH [of f] Cons.prems that by simp
  have add: "start_date fr2 = start_date fr"
    if "add_news w x (fr\<lparr>trace := trace fr @ [Eval x]\<rparr>) = Inr fr2" for fr2
    using add_news_shape [OF that] by auto
  show ?case
    by (simp add: Let_def ih add split: sum.splits)
qed

subsection \<open>The date of a record\<close>

lemma topic_accepted_date:
  assumes "date_mapping w" "topic_accepted w s e t n"
  shows "s \<le> news_date n \<and> news_date n \<le> e"
proof -
  from assms(2) obtain it d where it: "deserialize_news w it = Inr (Some n)"
    "parse_date w (map_of it ''data'') = Inr d" "s \<le> d" "d \<le> e"
    unfolding topic_accepted_def by blast
  from assms(1) it(1) have "parse_date w (map_of it ''data'') = Inr (news_date n)"
    unfolding date_mapping_def by blast
  with it(2-4) show ?thesis by simp
qed

lemma demo_date_mapping: "date_mapping (demo_publico_world urls pages)"
  unfolding date_mapping_def demo_publico_world_def demo_publico_news_def
  by (auto split: option.splits sum.splits)

subsection \<open>Early stop\<close>

text \<open>
  Claim C1. Take any run of the topic search, however it ends and however far it gets.
  If the run looks at an item whose date is before the start date, this is the last
  thing it does: the trace has nothing after it (no later item of the page is looked
  at, no further page is requested), the flag is set and the run has finished. And every
  record the run has added to \<^verbatim>\<open>found_news\<close> comes from an item the run looked at
  whose date is not before the start date (and not after the end date). Moreover what
  follows such an item on its page has no part in the result of the loop over the page.
  And, the date of a record being the date of its item, no record that the run has added
  to \<^verbatim>\<open>found_news\<close> is older than the start date.
\<close>

theorem topic_early_stop:
  assumes "topic_consume_api w fuel self = (st, fr)"
  shows
    "(\<forall>before it after d. trace fr = before @ Eval it # after \<and>
        parse_date w (map_of it ''data'') = Inr d \<and> d < start_date self \<longrightarrow>
        after = [] \<and> st = Finished \<and> stop_entire_search fr) \<and>
     (\<forall>n \<in> set (found_news fr). n \<in> set (found_news self) \<or>
        (\<exists>it d. Eval it \<in> set (trace fr) \<and> deserialize_news w it = Inr (Some n) \<and>
           parse_date w (map_of it ''data'') = Inr d \<and> \<not> d < start_date self \<and>
           d \<le> end_date self)) \<and>
     (\<forall>pre it post f d. parse_date w (map_of it ''data'') = Inr d \<and> d < start_date f \<longrightarrow>
        topic_items w (pre @ it # post) f = topic_items w (pre @ [it]) f) \<and>
     (date_mapping w \<longrightarrow>
        (\<forall>n \<in> set (found_news fr). n \<in> set (found_news self) \<or>
           \<not> news_date n < start_date self))"
proof -
  note inv = topic_consume_api_inv [OF assms]
  have stop: "after = [] \<and> st = Finished \<and> stop_entire_search fr"
    if t: "trace fr = before @ Eval it # after"
      and d: "parse_date w (map_of it ''data'') = Inr d" "d < start_date self"
    for before it after d
  proof -
    from d have old: "old_item w (start_date self) it" by (auto simp: old_item_def)
    from t have "Eval it \<in> set (trace fr)" by simp
    with old have "\<not> quiet w (start_date self) (trace fr)" by (auto simp: quiet_def)
    with inv obtain t0 x where last: "st = Finished" "stop_entire_search fr"
      "trace fr = t0 @ [Eval x]" "quiet w (start_date self) t0" by blast
    from quiet_last_old [OF last(3) [unfolded t, symmetric] last(4) old] last(1,2)
    show ?thesis by simp
  qed
  have found: "n \<in> set (found_news self) \<or>
      (\<exists>it d. Eval it \<in> set (trace fr) \<and> deserialize_news w it = Inr (Some n) \<and>
         parse_date w (map_of it ''data'') = Inr d \<and> \<not> d < start_date self \<and>
         d \<le> end_date self)"
    if "n \<in> set (found_news fr)" for n
    using inv that unfolding topic_accepted_def by fastforce
  have dated: "n \<in> set (found_news self) \<or> \<not> news_date n < start_date self"
    if "date_mapping w" "n \<in> set (found_news fr)" for n
  proof -
    from inv that(2) consider "n \<in> set (found_news self)"
      | "topic_accepted w (start_date self) (end_date self) (trace fr) n"
      by blast
    then show ?thesis
    proof cases
      case 1
      then show ?thesis by simp
    next
      case 2
      from topic_accepted_date [OF that(1) 2] show ?thesis by simp
    qed
  qed
  from stop found topic_items_after_old [of w] dated show ?thesis by blast
qed


theorem topic_early_stop_witness:
  "topic_consume_api
     (demo_publico_world demo_topic_urls [[item_new, item_in, item_old, item_late], [item_late]])
     5 demo_topic_search =
   (Finished,
    \<lparr>found_news = [demo_publico_news ''https://www.publico.pt/2020/01/05/b'' 4],
     page_number = 1, start_date = 0, end_date = 30, search_topic = ''Covid 19'',
     stop_entire_search = True,
     trace = [Fetch ''https://www.publico.pt/api/list/covid-19?page=1'',
              Eval item_new, Eval item_in, Eval item_old]\<rparr>) \<and>
   parse_date
     (demo_publico_world demo_topic_urls [[item_new, item_in, item_old, item_late], [item_late]])
     (map_of item_old ''data'') = Inr (- 12) \<and>
   (- 12) < start_date demo_topic_search \<and>
   date_mapping
     (demo_publico_world demo_topic_urls [[item_new, item_in, item_old, item_late], [item_late]]) \<and>
   start_date demo_topic_search
     \<le> news_date (demo_publico_news ''https://www.publico.pt/2020/01/05/b'' 4)"
proof -
  define w where
    "w = demo_publico_world demo_topic_urls [[item_new, item_in, item_old, item_late], [item_late]]"
  define n where "n = demo_publico_news ''https://www.publico.pt/2020/01/05/b'' 4"
  define fr where "fr =
    \<lparr>found_news = [n],
     page_number = 1, start_date = 0, end_date = 30, search_topic = ''Covid 19'',
     stop_entire_search = True,
     trace = [Fetch ''https://www.publico.pt/api/list/covid-19?page=1'',
              Eval item_new, Eval item_in, Eval item_old]\<rparr>"
  have run: "topic_consume_api w 5 demo_topic_search = (Finished, fr)"
    unfolding w_def fr_def n_def by code_simp
  have old: "parse_date w (map_of item_old ''data'') = Inr (- 12)"
    unfolding w_def by code_simp
  have early: "(- 12) < start_date demo_topic_search"
    by code_simp
  have mapping: "date_mapping w"
    unfolding w_def by (rule demo_date_mapping)
  have empty: "found_news demo_topic_search = []"
    by code_simp
  have "trace fr =
      [Fetch ''https://www.publico.pt/api/list/covid-19?page=1'', Eval item_new, Eval item_in]
        @ Eval item_old # []"
    by (simp add: fr_def)
  with topic_early_stop [OF run] old early
  have "[] = ([] :: event list) \<and> Finished = Finished \<and> stop_entire_search fr"
    by blast
  moreover have "n \<in> set (found_news fr)"
    by (simp add: fr_def)
  with topic_early_stop [OF run] mapping
  have "n \<in> set (found_news demo_topic_search) \<or> \<not> news_date n < start_date demo_topic_search"
    by blast
  then have "start_date demo_topic_search \<le> news_date n"
    by (simp add: empty)
  ultimately show ?thesis
    using run old early mapping unfolding w_def fr_def n_def by simp
qed


subsection \<open>The date range\<close>

text \<open>
  Claim C3, as the code has it. The keywords search hands the date range to the API in
  the URL and adds whatever comes back: a record of any date is accepted. Here the API
  answers with an item of 20 December 2019 for the range of January 2020, and the
  record has the date of the item.
\<close>

theorem keywords_accepts_out_of_range:
  "keywords_consume_api (demo_publico_world demo_keywords_urls [[item_old]]) 5
     demo_keywords_search =
   (Finished, demo_keywords_search
      \<lparr>found_news := [demo_publico_news ''https://www.publico.pt/2019/12/20/c'' (- 12)],
       page_number := 2\<rparr>) \<and>
   news_date (demo_publico_news ''https://www.publico.pt/2019/12/20/c'' (- 12))
     < start_date demo_keywords_search \<and>
   date_mapping (demo_publico_world demo_keywords_urls [[item_old]])"
proof -
  have "keywords_consume_api (demo_publico_world demo_keywords_urls [[item_old]]) 5
     demo_keywords_search =
   (Finished, demo_keywords_search
      \<lparr>found_news := [demo_publico_news ''https://www.publico.pt/2019/12/20/c'' (- 12)],
       page_number := 2\<rparr>)"
    by code_simp
  moreover have "news_date (demo_publico_news ''https://www.publico.pt/2019/12/20/c'' (- 12))
     < start_date demo_keywords_search"
    by code_simp
  ultimately show ?thesis
    using demo_date_mapping [of demo_keywords_urls "[[item_old]]"] by blast
qed

text \<open>
  Claim C3, amended. Every record that the scraped search adds (in a pass of its loop
  body, and so in a run) has a date strictly between the start and the end date. Every
  record that a run of the topic search adds is the deserialization of an item that the
  run looked at and whose date, as the run parsed it, is from the start date to the end
  date, both included; and, the date of a record being the date of its item, the date
  of the record is from the start date to the end date, both included.
\<close>

theorem accepted_dates_in_range:
  "(\<forall>a s'. cm_article cw s a = Inr s' \<longrightarrow>
      (\<forall>n \<in> set (cm_found_news s'). n \<in> set (cm_found_news s) \<or>
         cm_start_date s < cm_date n \<and> cm_date n < cm_end_date s)) \<and>
   (\<forall>fr. cm_search cw fuel cself = Returned fr \<longrightarrow>
      (\<forall>n \<in> set (cm_found_news fr). n \<in> set (cm_found_news cself) \<or>
         cm_start_date cself < cm_date n \<and> cm_date n < cm_end_date cself)) \<and>
   (\<forall>st fr. topic_consume_api w fuel' self = (st, fr) \<longrightarrow>
      (\<forall>n \<in> set (found_news fr). n \<in> set (found_news self) \<or>
         (\<exists>it d. Eval it \<in> set (trace fr) \<and> deserialize_news w it = Inr (Some n) \<and>
            parse_date w (map_of it ''data'') = Inr d \<and>
            start_date self \<le> d \<and> d \<le> end_date self) \<and>
         (date_mapping w \<longrightarrow>
            start_date self \<le> news_date n \<and> news_date n \<le> end_date self)))"
proof (intro conjI allI impI ballI)
  fix a s' n
  assume step: "cm_article cw s a = Inr s'" and n: "n \<in> set (cm_found_news s')"
  from cm_article_shape [OF step]
  show "n \<in> set (cm_found_news s) \<or> cm_start_date s < cm_date n \<and> cm_date n < cm_end_date s"
  proof
    assume "s' = s"
    with n show ?thesis by simp
  next
    assume "\<exists>m. cm_built cw s a m \<and> s' = s\<lparr>cm_found_news := cm_found_news s @ [m]\<rparr>"
    then obtain m where m: "cm_built cw s a m"
      "s' = s\<lparr>cm_found_news := cm_found_news s @ [m]\<rparr>" by blast
    from m(1) obtain u d desc and resp :: response where
      listing: "cm_listing_item cw s a = Inr (Some (u, d, desc))" and
      built: "cm_build_news cw u d desc (response_text resp) = Inr m"
      unfolding cm_built_def by blast
    from cm_listing_item_range [OF listing] cm_build_news_fields [OF built]
    have "cm_start_date s < cm_date m \<and> cm_date m < cm_end_date s" by simp
    with n m(2) show ?thesis by auto
  qed
next
  fix fr n
  assume ret: "cm_search cw fuel cself = Returned fr" and n: "n \<in> set (cm_found_news fr)"
  define fr0 where "fr0 = \<lparr>topic = topic cself, cm_start_date = cm_start_date cself,
    cm_end_date = cm_end_date cself, cm_found_news = cm_found_news cself, index = 0,
    full_stop = False\<rparr>"
  from ret have loop: "cm_search_loop cw fuel fr0 = Returned fr"
    by (simp add: cm_search_def fr0_def)
  have "\<not> full_stop fr0" by (simp add: fr0_def)
  from cm_loop_returned [OF loop this] obtain new where
    new: "fr = fr0\<lparr>cm_found_news := cm_found_news fr0 @ new, index := index fr\<rparr>"
      "\<forall>n \<in> set new. \<exists>a. cm_built cw fr0 a n"
    by blast
  have "cm_found_news (fr0\<lparr>cm_found_news := cm_found_news fr0 @ new, index := index fr\<rparr>) =
      cm_found_news cself @ new"
    by (simp add: fr0_def)
  with new(1) have "cm_found_news fr = cm_found_news cself @ new" by simp
  with n consider "n \<in> set (cm_found_news cself)" | "n \<in> set new" by auto
  then show "n \<in> set (cm_found_news cself) \<or>
      cm_start_date cself < cm_date n \<and> cm_date n < cm_end_date cself"
  proof cases
    case 1
    then show ?thesis by simp
  next
    case 2
    with new(2) obtain a u d desc and resp :: response where
      listing: "cm_listing_item cw fr0 a = Inr (Some (u, d, desc))" and
      built: "cm_build_news cw u d desc (response_text resp) = Inr n"
      unfolding cm_built_def by blast
    from cm_listing_item_range [OF listing] cm_build_news_fields [OF built]
    show ?thesis by (simp add: fr0_def)
  qed
next
  fix st fr n
  assume run: "topic_consume_api w fuel' self = (st, fr)" and n: "n \<in> set (found_news fr)"
  from topic_consume_api_inv [OF run] n
  consider "n \<in> set (found_news self)"
    | "topic_accepted w (start_date self) (end_date self) (trace fr) n"
    by blast
  then show "n \<in> set (found_news self) \<or>
      (\<exists>it d. Eval it \<in> set (trace fr) \<and> deserialize_news w it = Inr (Some n) \<and>
         parse_date w (map_of it ''data'') = Inr d \<and>
         start_date self \<le> d \<and> d \<le> end_date self) \<and>
      (date_mapping w \<longrightarrow>
         start_date self \<le> news_date n \<and> news_date n \<le> end_date self)"
  proof cases
    case 1
    then show ?thesis by simp
  next
    case 2
    then have "\<exists>it d. Eval it \<in> set (trace fr) \<and> deserialize_news w it = Inr (Some n) \<and>
         parse_date w (map_of it ''data'') = Inr d \<and>
         start_date self \<le> d \<and> d \<le> end_date self"
      unfolding topic_accepted_def by blast
    moreover have "date_mapping w \<longrightarrow>
         start_date self \<le> news_date n \<and> news_date n \<le> end_date self"
      using topic_accepted_date [OF _ 2] by blast
    ultimately show ?thesis by blast
  qed
qed

theorem accepted_dates_in_range_witness:
  "cm_search (demo_cm_world [[article_um], [article_anonima]]) 5 demo_cm_search =
     Returned \<lparr>topic = ''covid 19'', cm_start_date = 0, cm_end_date = 2592000,
       cm_found_news = [news_um, news_anonima], index = 12, full_stop = False\<rparr> \<and>
   list_all (\<lambda>n. cm_start_date demo_cm_search < cm_date n \<and> cm_date n < cm_end_date demo_cm_search)
     [news_um, news_anonima] \<and>
   fst (topic_consume_api
     (demo_publico_world demo_topic_urls [[item_new, item_in, item_old, item_late], [item_late]])
     5 demo_topic_search) = Finished \<and>
   found_news (snd (topic_consume_api
     (demo_publico_world demo_topic_urls [[item_new, item_in, item_old, item_late], [item_late]])
     5 demo_topic_search)) = [demo_publico_news ''https://www.publico.pt/2020/01/05/b'' 4] \<and>
   date_mapping
     (demo_publico_world demo_topic_urls [[item_new, item_in, item_old, item_late], [item_late]]) \<and>
   start_date demo_topic_search
     \<le> news_date (demo_publico_news ''https://www.publico.pt/2020/01/05/b'' 4) \<and>
   news_date (demo_publico_news ''https://www.publico.pt/2020/01/05/b'' 4)
     \<le> end_date demo_topic_search"
proof -
  define cw where "cw = demo_cm_world [[article_um], [article_anonima]]"
  define cfr where "cfr = \<lparr>topic = ''covid 19'', cm_start_date = 0, cm_end_date = 2592000,
       cm_found_news = [news_um, news_anonima], index = 12, full_stop = False\<rparr>"
  define w where
    "w = demo_publico_world demo_topic_urls [[item_new, item_in, item_old, item_late], [item_late]]"
  define n where "n = demo_publico_news ''https://www.publico.pt/2020/01/05/b'' 4"
  obtain st fr where run: "topic_consume_api w 5 demo_topic_search = (st, fr)"
    by (cases "topic_consume_api w 5 demo_topic_search")
  have crun: "cm_search cw 5 demo_cm_search = Returned cfr"
    unfolding cw_def cfr_def by code_simp
  have st: "fst (topic_consume_api w 5 demo_topic_search) = Finished"
    unfolding w_def by code_simp
  have found: "found_news (snd (topic_consume_api w 5 demo_topic_search)) = [n]"
    unfolding w_def n_def by code_simp
  have empty: "cm_found_news demo_cm_search = []" "found_news demo_topic_search = []"
    by code_simp+
  have mapping: "date_mapping w"
    unfolding w_def by (rule demo_date_mapping)
  note inst = accepted_dates_in_range [of cw demo_cm_search 5 demo_cm_search w 5 demo_topic_search]
  from inst crun have "\<forall>n \<in> set (cm_found_news cfr). n \<in> set (cm_found_news demo_cm_search) \<or>
      cm_start_date demo_cm_search < cm_date n \<and> cm_date n < cm_end_date demo_cm_search"
    by blast
  then have cm: "list_all (\<lambda>n. cm_start_date demo_cm_search < cm_date n \<and>
      cm_date n < cm_end_date demo_cm_search) [news_um, news_anonima]"
    by (simp add: cfr_def empty)
  from found run have "n \<in> set (found_news fr)" by simp
  with inst run mapping have "n \<in> set (found_news demo_topic_search) \<or>
      start_date demo_topic_search \<le> news_date n \<and> news_date n \<le> end_date demo_topic_search"
    by blast
  then have tp: "start_date demo_topic_search \<le> news_date n"
    "news_date n \<le> end_date demo_topic_search"
    by (simp_all add: empty)
  from crun cm st found mapping tp show ?thesis
    unfolding cw_def cfr_def w_def n_def by blast
qed


subsection \<open>Duplicates\<close>

text \<open>
  Claim C2, where the code departs from it. The scraped search appends every record it
  builds (line 148) and never looks at what \<^verbatim>\<open>found_news\<close> holds: an article listed
  on two pages is recorded twice, with the same normalized URL.
\<close>

theorem cm_records_url_twice:
  "cm_search (demo_cm_world [[article_um, article_anonima], [article_um]]) 5 demo_cm_search =
     Returned \<lparr>topic = ''covid 19'', cm_start_date = 0, cm_end_date = 2592000,
       cm_found_news = [news_um, news_anonima, news_um], index = 12, full_stop = False\<rparr> \<and>
   map cm_url [news_um, news_anonima, news_um] =
     [''https://www.cmjornal.pt/sociedade/detalhe/um'',
      ''https://www.cmjornal.pt/opiniao/detalhe/anonima'',
      ''https://www.cmjornal.pt/sociedade/detalhe/um'']"
  by code_simp

lemma distinct_map_count:
  "distinct (map f xs) \<Longrightarrow> x \<in> set xs \<Longrightarrow> length (filter (\<lambda>m. f m = f x) xs) = 1"
proof (induction xs)
  case Nil
  then show ?case by simp
next
  case (Cons y ys)
  show ?case
  proof (cases "f y = f x")
    case True
    with Cons.prems(1) have "f x \<notin> f ` set ys" by simp
    then have "filter (\<lambda>m. f m = f x) ys = []"
      by (auto simp: filter_empty_conv image_iff)
    with True show ?thesis by simp
  next
    case False
    with Cons show ?thesis by auto
  qed
qed

text \<open>
  The other insert paths, for comparison. The searches of the API source (URL search,
  topic search, keywords search) test \<^verbatim>\<open>news_object not in self.found_news\<close> before
  they append (lines 64, 139, 216). With the equality of the spec, a record whose URL is
  the URL of a record already in \<^verbatim>\<open>found_news\<close> is not added: the object stays as it
  is. Inserting the same item or URL a second time changes nothing; a collection
  without two records of the same URL stays so, and then holds exactly one record with
  the URL just inserted.
\<close>

theorem publico_insert_idempotent:
  "(deserialize_news w it = Inr (Some n) \<and> news_url n \<in> news_url ` set (found_news self) \<longrightarrow>
      add_news w it self = Inr self) \<and>
   (build_from_url w u = Inr n \<and> news_url n \<in> news_url ` set (found_news self) \<longrightarrow>
      url_add_news w u self = Inr self) \<and>
   (\<forall>s1. add_news w it self = Inr s1 \<longrightarrow>
      add_news w it s1 = Inr s1 \<and>
      (distinct (map news_url (found_news self)) \<longrightarrow>
         distinct (map news_url (found_news s1)) \<and>
         (deserialize_news w it = Inr (Some n) \<longrightarrow>
            length (filter (\<lambda>m. news_url m = news_url n) (found_news s1)) = 1))) \<and>
   (\<forall>s1. url_add_news w u self = Inr s1 \<longrightarrow>
      url_add_news w u s1 = Inr s1 \<and>
      (distinct (map news_url (found_news self)) \<longrightarrow>
         distinct (map news_url (found_news s1)) \<and>
         (build_from_url w u = Inr n \<longrightarrow>
            length (filter (\<lambda>m. news_url m = news_url n) (found_news s1)) = 1)))"
proof (intro conjI allI impI)
  assume "deserialize_news w it = Inr (Some n) \<and> news_url n \<in> news_url ` set (found_news self)"
  then show "add_news w it self = Inr self"
    by (simp add: add_news_def py_in_url)
next
  assume "build_from_url w u = Inr n \<and> news_url n \<in> news_url ` set (found_news self)"
  then show "url_add_news w u self = Inr self"
    by (simp add: url_add_news_def py_in_url)
next
  fix s1 assume "add_news w it self = Inr s1"
  then show "add_news w it s1 = Inr s1"
    unfolding add_news_def
    by (auto simp: py_in_url split: sum.splits option.splits if_splits)
next
  fix s1 assume add: "add_news w it self = Inr s1"
    and d: "distinct (map news_url (found_news self))"
  from add d show "distinct (map news_url (found_news s1))"
    unfolding add_news_def
    by (auto simp: py_in_url split: sum.splits option.splits if_splits)
next
  fix s1 assume add: "add_news w it self = Inr s1"
    and d: "distinct (map news_url (found_news self))"
    and n: "deserialize_news w it = Inr (Some n)"
  from add d have d1: "distinct (map news_url (found_news s1))"
    unfolding add_news_def
    by (auto simp: py_in_url split: sum.splits option.splits if_splits)
  from add n have "news_url n \<in> news_url ` set (found_news s1)"
    unfolding add_news_def
    by (auto simp: py_in_url split: if_splits)
  then obtain m where "m \<in> set (found_news s1)" "news_url m = news_url n" by auto
  with distinct_map_count [OF d1 this(1)]
  show "length (filter (\<lambda>m. news_url m = news_url n) (found_news s1)) = 1" by simp
next
  fix s1 assume "url_add_news w u self = Inr s1"
  then show "url_add_news w u s1 = Inr s1"
    unfolding url_add_news_def
    by (auto simp: py_in_url Let_def split: sum.splits if_splits)
next
  fix s1 assume add: "url_add_news w u self = Inr s1"
    and d: "distinct (map news_url (found_news self))"
  from add d show "distinct (map news_url (found_news s1))"
    unfolding url_add_news_def
    by (auto simp: py_in_url Let_def split: sum.splits if_splits)
next
  fix s1 assume add: "url_add_news w u self = Inr s1"
    and d: "distinct (map news_url (found_news self))"
    and n: "build_from_url w u = Inr n"
  from add d have d1: "distinct (map news_url (found_news s1))"
    unfolding url_add_news_def
    by (auto simp: py_in_url Let_def split: sum.splits if_splits)
  from add n have "news_url n \<in> news_url ` set (found_news s1)"
    unfolding url_add_news_def
    by (auto simp: py_in_url Let_def split: if_splits)
  then obtain m where "m \<in> set (found_news s1)" "news_url m = news_url n" by auto
  with distinct_map_count [OF d1 this(1)]
  show "length (filter (\<lambda>m. news_url m = news_url n) (found_news s1)) = 1" by simp
qed

theorem publico_insert_idempotent_witness:
  "add_news (demo_publico_world demo_topic_urls []) item_in demo_topic_search =
     Inr (demo_topic_search
       \<lparr>found_news := [demo_publico_news ''https://www.publico.pt/2020/01/05/b'' 4]\<rparr>) \<and>
   add_news (demo_publico_world demo_topic_urls []) item_in
     (demo_topic_search
       \<lparr>found_news := [demo_publico_news ''https://www.publico.pt/2020/01/05/b'' 4]\<rparr>) =
     Inr (demo_topic_search
       \<lparr>found_news := [demo_publico_news ''https://www.publico.pt/2020/01/05/b'' 4]\<rparr>) \<and>
   url_add_news (demo_publico_world demo_topic_urls []) ''https://www.publico.pt/2020/01/05/b''
     (demo_topic_search
       \<lparr>found_news := [demo_publico_news ''https://www.publico.pt/2020/01/05/b'' 4]\<rparr>) =
     Inr (demo_topic_search
       \<lparr>found_news := [demo_publico_news ''https://www.publico.pt/2020/01/05/b'' 4]\<rparr>)"
proof -
  define w where "w = demo_publico_world demo_topic_urls []"
  define n where "n = demo_publico_news ''https://www.publico.pt/2020/01/05/b'' 4"
  define s1 where "s1 = demo_topic_search\<lparr>found_news := [n]\<rparr>"
  have first: "add_news w item_in demo_topic_search = Inr s1"
    unfolding w_def s1_def n_def by code_simp
  have des: "deserialize_news w item_in = Inr (Some n)"
    unfolding w_def n_def by code_simp
  have build: "build_from_url w ''https://www.publico.pt/2020/01/05/b'' = Inr n"
    unfolding w_def n_def by code_simp
  have present: "news_url n \<in> news_url ` set (found_news s1)"
    by (simp add: s1_def)
  from publico_insert_idempotent [of w item_in n s1 "''https://www.publico.pt/2020/01/05/b''"]
    des build present
  have "add_news w item_in s1 = Inr s1"
    "url_add_news w ''https://www.publico.pt/2020/01/05/b'' s1 = Inr s1"
    by blast+
  with first show ?thesis unfolding w_def s1_def n_def by simp
qed

subsection \<open>Items that fail to parse\<close>






end
